theory Spec2Isabelle
  imports Complex_Main
begin

section \<open>Radial velocities of a Keplerian orbit (orbit.py)\<close>

text \<open>
  The program computes the radial-velocity curve of a star over one orbital period and
  resamples it onto a requested time span. It is numeric Python on top of numpy and scipy.
  The embedding works over the real numbers:
  \<^item> a finite float is a \<^typ>\<open>real\<close>; a value that numpy would deliver as \<open>nan\<close> or
    \<open>inf\<close> (a division by zero, an \<open>arccos\<close> outside \<open>[-1, 1]\<close>) is \<open>None\<close> in
    \<^typ>\<open>real option\<close>, and it propagates through arithmetic as \<open>nan\<close> does;
  \<^item> an exception is an \<open>Inl\<close> of the type \<open>error\<close>;
  \<^item> the root finder is a parameter of the stages: a function from the residual function
    and the initial guess to a root or an error. What the program passes is
    \<open>scipy.optimize.newton\<close> without a derivative, which is scipy's secant iteration
    with its default step tolerance and iteration budget; it is modelled below as
    \<open>sp_newton\<close>, over the reals;
  \<^item> \<open>numpy.linspace\<close> and \<open>numpy.interp\<close> are modelled from their documented
    behaviour;
  \<^item> the expression \<open>(NT-1)/2\<close> divides two integers, and its value depends on the
    interpreter: Python 2 floors it to an integer, Python 3 makes it a float. The
    interpreter is a parameter of the model too.
\<close>

subsection \<open>Values and errors\<close>

datatype python = Python2 | Python3

datatype error =
    ValueError
  | ZeroDivisionError
  | TypeError
  | RuntimeError real

text \<open>
  \<open>RuntimeError v\<close> is what \<open>scipy.optimize.newton\<close> raises when it gives up
  (\<open>Failed to converge after n iterations, value is v\<close>): it reports its last iterate.
\<close>

datatype pynum = PyInt int | PyFloat real

type_synonym solver = "(real \<Rightarrow> real) \<Rightarrow> real \<Rightarrow> error + real"

subsection \<open>The equations\<close>

text \<open>\<open>vr(VZ, K, w, f, e)\<close>: equation 65. The argument of periapse arrives in degrees.\<close>

definition vr :: "real \<Rightarrow> real \<Rightarrow> real \<Rightarrow> real \<Rightarrow> real \<Rightarrow> real" where
  "vr VZ K w f e = (let w = w * (pi / 180) in VZ + K * (cos (w + f) + e * cos w))"

text \<open>\<open>kepler(E, e, M)\<close>: equation 41, the residual of the Kepler equation.\<close>

definition kepler :: "real \<Rightarrow> real \<Rightarrow> real \<Rightarrow> real" where
  "kepler E e M = E - e * sin E - M"

subsection \<open>The numpy operations the program calls\<close>

text \<open>
  \<open>numpy.linspace(start, stop, num)\<close>: \<open>num\<close> samples \<open>start + i * step\<close> with
  \<open>step = (stop - start) / (num - 1)\<close>, the last one set to \<open>stop\<close> when there are at
  least two; a negative \<open>num\<close> is a ValueError. With \<open>num = 1\<close> the only sample is
  \<open>start\<close> (the index 0 is multiplied with the whole span).
\<close>

definition linspace :: "real \<Rightarrow> real \<Rightarrow> int \<Rightarrow> error + real list" where
  "linspace start stop num =
     (if num < 0 then Inl ValueError
      else Inr (map (\<lambda>i. if 1 < num \<and> i = num - 1 then stop
                          else if 1 < num
                               then start + of_int i * ((stop - start) / of_int (num - 1))
                               else start + of_int i * (stop - start))
                    [0..num - 1]))"

text \<open>Python's \<open>%\<close> on floats: the result has the sign of the divisor.\<close>

definition fmod :: "real \<Rightarrow> real \<Rightarrow> real" where
  "fmod x p = x - p * of_int \<lfloor>x / p\<rfloor>"

text \<open>
  One linear piece between two knots. A \<open>nan\<close> ordinate makes the result \<open>nan\<close>.
\<close>

definition lin :: "real \<Rightarrow> real option \<Rightarrow> real \<Rightarrow> real option \<Rightarrow> real \<Rightarrow> real option" where
  "lin x0 y0 x1 y1 x =
     (case (y0, y1) of
        (Some u, Some v) \<Rightarrow> Some ((v - u) / (x1 - x0) * (x - x0) + u)
      | _ \<Rightarrow> None)"

text \<open>
  The compiled interpolation of numpy on sorted knots: left of the first knot the first
  ordinate, from the last knot on the last ordinate, otherwise the piece that starts at
  the last knot \<open>j\<close> with \<open>xp[j] \<le> x\<close>; at a knot exactly, its ordinate.
\<close>

fun interp_func :: "(real \<times> real option) list \<Rightarrow> real \<Rightarrow> real option" where
  "interp_func [] x = None"
| "interp_func [(x0, y0)] x = y0"
| "interp_func ((x0, y0) # (x1, y1) # ps) x =
     (if x < x0 then y0
      else if x1 \<le> x then interp_func ((x1, y1) # ps) x
      else if x = x0 then y0
      else lin x0 y0 x1 y1 x)"

text \<open>
  \<open>numpy.interp(x, xp, fp, period=T)\<close>: the abscissae are reduced modulo \<open>|T|\<close>, the
  knots are sorted by abscissa, the last knot is repeated one period earlier in front
  and the first knot one period later at the end, and every \<open>x\<close> is interpolated on the
  result. A zero period, sequences of different lengths and an empty sequence of knots
  are ValueErrors. Knots with equal abscissae keep their order here; numpy promises no
  order for them, and the properties of the resampler below are proved for every sorted
  arrangement of the knots.
\<close>

definition interp :: "real list \<Rightarrow> real list \<Rightarrow> real option list \<Rightarrow> real \<Rightarrow> error + real option list" where
  "interp x xp fp period =
     (if period = 0 then Inl ValueError
      else if length xp \<noteq> length fp then Inl ValueError
      else
        let p = \<bar>period\<bar>;
            knots = sort_key fst (zip (map (\<lambda>v. fmod v p) xp) fp)
        in if knots = [] then Inl ValueError
           else
             let padded = (fst (last knots) - p, snd (last knots)) # knots
                            @ [(fst (hd knots) + p, snd (hd knots))]
             in Inr (map (\<lambda>v. interp_func padded (fmod v p)) x))"

subsection \<open>The root finder the program calls\<close>

text \<open>
  \<open>sp.newton(func=kepler, x0=Mk, args=(e, Mk))\<close> gives no derivative, and
  \<open>scipy.optimize.newton\<close> then runs the secant method with its defaults
  \<open>tol = 1.48e-8\<close> and \<open>maxiter = 50\<close>. The first two points are \<open>p0 = x0\<close> and
  \<open>p1 = x0*(1 + 1e-4) + 1e-4\<close> (\<open>- 1e-4\<close> for a negative \<open>x0\<close>). Each of at most
  \<open>maxiter\<close> rounds takes \<open>q0 = func(p0)\<close>, \<open>q1 = func(p1)\<close>; if \<open>q1 == q0\<close> it
  returns \<open>(p1 + p0)/2\<close>; otherwise it forms \<open>p = p1 - q1*(p1 - p0)/(q1 - q0)\<close>,
  returns \<open>p\<close> if \<open>abs(p - p1) < tol\<close>, and goes on with \<open>p1\<close> and \<open>p\<close>. When the
  rounds are used up it raises \<open>RuntimeError\<close> with the last \<open>p\<close>. The test that
  stops the iteration looks at the step, not at the residual. The scipy source is not
  part of the repository: the model follows the iteration as scipy documents it, as
  \<open>linspace\<close> and \<open>interp\<close> follow numpy's. In \<open>secant func n p0 p1 p\<close> the
  number \<open>n\<close> counts the rounds that are left and \<open>p\<close> is the iterate that the
  error reports.
\<close>

definition tol :: real where
  "tol = 148 / 10 ^ 10"

definition maxiter :: nat where
  "maxiter = 50"

fun secant :: "(real \<Rightarrow> real) \<Rightarrow> nat \<Rightarrow> real \<Rightarrow> real \<Rightarrow> real \<Rightarrow> error + real" where
  "secant func 0 p0 p1 p = Inl (RuntimeError p)"
| "secant func (Suc n) p0 p1 p' =
     (let q0 = func p0; q1 = func p1
      in if q1 = q0 then Inr ((p1 + p0) / 2)
         else
           let p = p1 - q1 * (p1 - p0) / (q1 - q0)
           in if \<bar>p - p1\<bar> < tol then Inr p else secant func n p1 p p)"

definition sp_newton :: solver where
  "sp_newton func x0 =
     (let p0 = x0;
          p1 = (if 0 \<le> x0 then x0 * (1 + 1 / 10 ^ 4) + 1 / 10 ^ 4
                else x0 * (1 + 1 / 10 ^ 4) - 1 / 10 ^ 4)
      in secant func maxiter p0 p1 x0)"

subsection \<open>The stages of \<open>get_RVs\<close>\<close>

text \<open>Line 53: \<open>M = 2*np.pi/T*(t-t0)\<close>. The quotient \<open>2*np.pi/T\<close> is one of Python floats.\<close>

definition mean_anomaly :: "real \<Rightarrow> real \<Rightarrow> real list \<Rightarrow> error + real list" where
  "mean_anomaly T t0 t =
     (if T = 0 then Inl ZeroDivisionError
      else Inr (map (\<lambda>tk. 2 * pi / T * (tk - t0)) t))"

text \<open>
  Lines 54-55: the list comprehension calls the solver once per sample, in order, with
  the sample as initial guess; the first exception leaves the comprehension.
\<close>

fun eccentric_anomaly :: "solver \<Rightarrow> real \<Rightarrow> real list \<Rightarrow> error + real list" where
  "eccentric_anomaly newton e [] = Inr []"
| "eccentric_anomaly newton e (Mk # Ms) =
     (case newton (\<lambda>E. kepler E e Mk) Mk of
        Inl err \<Rightarrow> Inl err
      | Inr Ek \<Rightarrow>
          (case eccentric_anomaly newton e Ms of
             Inl err \<Rightarrow> Inl err
           | Inr Es \<Rightarrow> Inr (Ek # Es)))"

text \<open>Line 56: \<open>r = a*(1.-e*np.cos(E))\<close>.\<close>

definition radius :: "real \<Rightarrow> real \<Rightarrow> real \<Rightarrow> real" where
  "radius a e Ek = a * (1 - e * cos Ek)"

text \<open>
  Line 57: \<open>f = np.arccos(((a*(1.-e**2)/r)-1.0)/e)\<close>. numpy divides by zero without an
  exception: the quotient is \<open>inf\<close> or \<open>nan\<close>, and \<open>arccos\<close> of either, as of any
  argument outside \<open>[-1, 1]\<close>, is \<open>nan\<close>.

  The test of the domain is made on the exact argument. At periastron and at apoastron
  the exact argument is \<open>1\<close> and \<open>-1\<close>, on the edge of the domain, and the
  argument that the program computes in double precision can fall outside by a
  rounding error: for \<open>a = 1\<close>, \<open>e = 0.3\<close> it is \<open>1.0000000000000002\<close> and
  \<open>-1.0000000000000002\<close>, and the program has \<open>nan\<close> where this definition has
  \<open>Some 0\<close> and \<open>Some pi\<close>. For \<open>a = 1\<close>, \<open>e = 1/2\<close>, the orbit of the
  examples below, the computed arguments are \<open>1.0\<close> and \<open>-1.0\<close> exactly. No
  property below asserts that the program has a value at those samples of an orbit
  other than that one: where the true anomaly matters, a property speaks of the samples
  that have a value, or of the circular orbit, where none has.
\<close>

definition true_anomaly :: "real \<Rightarrow> real \<Rightarrow> real \<Rightarrow> real option" where
  "true_anomaly a e rk =
     (if rk = 0 \<or> e = 0 then None
      else
        let c = ((a * (1 - e ^ 2) / rk) - 1) / e
        in if - 1 \<le> c \<and> c \<le> 1 then Some (arccos c) else None)"

text \<open>
  Line 58: \<open>f[(NT-1)/2:] += 2*(np.pi-f[(NT-1)/2:])\<close>. The quotient of the two integers
  is an integer in Python 2 and a float in Python 3; a slice bound that is a float is a
  TypeError. A negative bound counts from the end, and bounds are clipped to the length.
\<close>

definition py_div :: "python \<Rightarrow> int \<Rightarrow> int \<Rightarrow> pynum" where
  "py_div py m n =
     (case py of Python2 \<Rightarrow> PyInt (m div n) | Python3 \<Rightarrow> PyFloat (of_int m / of_int n))"

definition slice_start :: "pynum \<Rightarrow> nat \<Rightarrow> error + nat" where
  "slice_start k n =
     (case k of
        PyFloat x \<Rightarrow> Inl TypeError
      | PyInt i \<Rightarrow> Inr (if i < 0 then nat (max (int n + i) 0) else min (nat i) n))"

definition reflect :: "real \<Rightarrow> real" where
  "reflect fk = fk + 2 * (pi - fk)"

definition shift_second_half :: "python \<Rightarrow> int \<Rightarrow> real option list \<Rightarrow> error + real option list" where
  "shift_second_half py NT f =
     (case slice_start (py_div py (NT - 1) 2) (length f) of
        Inl err \<Rightarrow> Inl err
      | Inr s \<Rightarrow> Inr (take s f @ map (map_option reflect) (drop s f)))"

text \<open>
  Lines 52-58: the time grid of one period, its mean anomalies and its true anomalies
  after the shift.
\<close>

definition geometry ::
  "python \<Rightarrow> solver \<Rightarrow> real \<Rightarrow> real \<Rightarrow> real \<Rightarrow> real \<Rightarrow> int
     \<Rightarrow> error + (real list \<times> real list \<times> real option list)" where
  "geometry py newton T t0 e a NT =
     (case linspace t0 (t0 + T) NT of
        Inl err \<Rightarrow> Inl err
      | Inr t \<Rightarrow>
     (case mean_anomaly T t0 t of
        Inl err \<Rightarrow> Inl err
      | Inr M \<Rightarrow>
     (case eccentric_anomaly newton e M of
        Inl err \<Rightarrow> Inl err
      | Inr E \<Rightarrow>
     (case shift_second_half py NT (map (true_anomaly a e) (map (radius a e) E)) of
        Inl err \<Rightarrow> Inl err
      | Inr f \<Rightarrow> Inr (t, M, f)))))"

text \<open>Lines 61-62: the radial velocities of the period, one per true anomaly.\<close>

definition one_period ::
  "python \<Rightarrow> solver \<Rightarrow> real \<Rightarrow> real \<Rightarrow> real \<Rightarrow> real \<Rightarrow> real \<Rightarrow> real \<Rightarrow> real \<Rightarrow> int
     \<Rightarrow> error + (real list \<times> real option list)" where
  "one_period py newton K T t0 w e a VZ NT =
     (case geometry py newton T t0 e a NT of
        Inl err \<Rightarrow> Inl err
      | Inr (t, M, f) \<Rightarrow> Inr (t, map (map_option (\<lambda>fk. vr VZ K w fk e)) f))"

text \<open>
  \<open>get_RVs(K, T, t0, w, e, a, VZ, start, end, NT, N)\<close>; \<open>finish\<close> is the source's
  \<open>end\<close>.
\<close>

definition get_RVs ::
  "python \<Rightarrow> solver \<Rightarrow> real \<Rightarrow> real \<Rightarrow> real \<Rightarrow> real \<Rightarrow> real \<Rightarrow> real \<Rightarrow> real \<Rightarrow> real \<Rightarrow> real
     \<Rightarrow> int \<Rightarrow> int \<Rightarrow> error + (real list \<times> real option list)" where
  "get_RVs py newton K T t0 w e a VZ start finish NT N =
     (case one_period py newton K T t0 w e a VZ NT of
        Inl err \<Rightarrow> Inl err
      | Inr (t, RV) \<Rightarrow>
     (case linspace start finish N of
        Inl err \<Rightarrow> Inl err
      | Inr ts \<Rightarrow>
     (case interp ts t RV T of
        Inl err \<Rightarrow> Inl err
      | Inr RVs \<Rightarrow> Inr (ts, RVs))))"

subsection \<open>The resampler in the specification's words\<close>

text \<open>
  Section 4.4 of the specification: the output at a target time is the linear
  interpolation between the two nearest samples of the one-period reference curve,
  after the target time is reduced modulo \<open>T\<close> relative to the phase origin \<open>t0\<close> of the
  reference grid. The reference grid has \<open>NT\<close> samples \<open>t0 + j * h\<close> with
  \<open>h = T / (NT - 1)\<close>; the reduced time \<open>t0 + u\<close> lies between the samples \<open>j\<close> and
  \<open>j + 1\<close> for \<open>j = floor (u / h)\<close>, and on a sample it has the sample's ordinate. This
  definition is not taken from the source: the program's resampling is \<open>interp\<close> above,
  and the two are compared below.
\<close>

definition spec_resample :: "real \<Rightarrow> real \<Rightarrow> int \<Rightarrow> real option list \<Rightarrow> real \<Rightarrow> real option" where
  "spec_resample T t0 NT RV x =
     (let h = T / of_int (NT - 1);
          u = fmod (x - t0) T;
          j = nat \<lfloor>u / h\<rfloor>
      in if u = of_nat j * h then RV ! j
         else lin (t0 + of_nat j * h) (RV ! j) (t0 + of_nat (Suc j) * h) (RV ! Suc j) (t0 + u))"

subsection \<open>A solver for the examples\<close>

text \<open>
  The examples below need a concrete root finder. This one returns the initial guess
  when the residual vanishes there, as every root finder does, and otherwise stops
  after the single step \<open>x0 - func(x0)\<close> and reports that iterate, as scipy reports
  its last one. On the grids of two and of three samples the mean anomalies are \<open>0\<close>,
  \<open>pi\<close> and \<open>2*pi\<close>, where the sine vanishes and the initial guess is the exact
  root for every eccentricity.
\<close>

definition one_step_solver :: solver where
  "one_step_solver func x0 =
     (if func x0 = 0 then Inr x0 else Inl (RuntimeError (x0 - func x0)))"

section \<open>Properties of the stages\<close>

subsection \<open>The sample grids\<close>

lemma linspace_neg: "num < 0 \<Longrightarrow> linspace a b num = Inl ValueError"
  by (simp add: linspace_def)

lemma linspace_Inr_iff: "(\<exists>xs. linspace a b num = Inr xs) = (0 \<le> num)"
  by (auto simp: linspace_def)

lemma linspace_Inl: "linspace a b num = Inl err \<Longrightarrow> num < 0 \<and> err = ValueError"
  by (auto simp: linspace_def split: if_splits)

lemma linspace_length: "linspace a b num = Inr xs \<Longrightarrow> length xs = nat num"
  by (auto simp: linspace_def split: if_splits)

lemma linspace_nth:
  assumes "linspace a b num = Inr xs" and "i < nat num"
  shows "xs ! i = (if num = 1 then a else a + real i * ((b - a) / real_of_int (num - 1)))"
proof -
  from assms have n: "0 \<le> num" by (auto simp: linspace_def split: if_splits)
  have u: "[0..num - 1] ! i = int i" using assms(2) by (simp add: nth_upto)
  have l: "i < length [0..num - 1]" using assms(2) by simp
  from assms(1) n have
    "xs ! i = (\<lambda>i. if 1 < num \<and> i = num - 1 then b
                          else if 1 < num
                               then a + of_int i * ((b - a) / of_int (num - 1))
                               else a + of_int i * (b - a)) ([0..num - 1] ! i)"
    using l by (auto simp: linspace_def simp del: length_upto)
  with u assms(2) show ?thesis
    by (auto simp: field_simps)
qed

lemma linspace_one: "linspace a b 1 = Inr [a]"
  by (simp add: linspace_def upto.simps)

subsection \<open>The interpolation returns one value per target time\<close>

lemma interp_length: "interp x xp fp T = Inr ys \<Longrightarrow> length ys = length x"
  by (auto simp: interp_def Let_def split: if_splits)

lemma interp_Inr_iff:
  "(\<exists>ys. interp x xp fp T = Inr ys) = (T \<noteq> 0 \<and> length xp = length fp \<and> xp \<noteq> [])"
proof -
  have "(sort_key fst (zip (map (\<lambda>v. fmod v \<bar>T\<bar>) xp) fp) = []) = (xp = [] \<or> fp = [])"
    by (metis length_0_conv length_sort zip_eq_Nil_iff map_is_Nil_conv)
  then show ?thesis
    by (auto simp: interp_def Let_def)
qed

lemma interp_Inl: "interp x xp fp T = Inl err \<Longrightarrow> err = ValueError"
  by (auto simp: interp_def Let_def split: if_splits)

subsection \<open>The solver loop\<close>

lemma eccentric_anomaly_length:
  "eccentric_anomaly newton e M = Inr E \<Longrightarrow> length E = length M"
  by (induction M arbitrary: E) (auto split: sum.splits)


lemma eccentric_anomaly_converges:
  "(\<exists>E. eccentric_anomaly newton e M = Inr E)
     = (\<forall>Mk\<in>set M. \<exists>Ek. newton (\<lambda>x. kepler x e Mk) Mk = Inr Ek)"
  by (induction M) (auto split: sum.splits)


subsection \<open>The shift of the second half\<close>

lemma shift_second_half_Python3: "shift_second_half Python3 NT f = Inl TypeError"
  by (simp add: shift_second_half_def slice_start_def py_div_def)

lemma shift_second_half_Python2:
  "shift_second_half Python2 NT f =
     Inr (take (if NT < 1 then nat (max (int (length f) + (NT - 1) div 2) 0)
                else min (nat ((NT - 1) div 2)) (length f)) f
          @ map (map_option reflect)
              (drop (if NT < 1 then nat (max (int (length f) + (NT - 1) div 2) 0)
                     else min (nat ((NT - 1) div 2)) (length f)) f))"
  by (auto simp: shift_second_half_def slice_start_def py_div_def)

lemma shift_second_half_length:
  "shift_second_half py NT f = Inr f' \<Longrightarrow> length f' = length f"
  by (auto simp: shift_second_half_def slice_start_def split: sum.splits pynum.splits)

lemma shift_second_half_nth:
  assumes "1 \<le> NT" and "i < length f"
  shows "\<exists>f'. shift_second_half Python2 NT f = Inr f' \<and> length f' = length f \<and>
           f' ! i = (if nat ((NT - 1) div 2) \<le> i then map_option reflect (f ! i) else f ! i)"
proof -
  let ?s = "min (nat ((NT - 1) div 2)) (length f)"
  have s: "shift_second_half Python2 NT f = Inr (take ?s f @ map (map_option reflect) (drop ?s f))"
    using assms(1) by (simp add: shift_second_half_Python2)
  have "(take ?s f @ map (map_option reflect) (drop ?s f)) ! i
          = (if nat ((NT - 1) div 2) \<le> i then map_option reflect (f ! i) else f ! i)"
    using assms(2) by (simp add: nth_append min_def)
  with s show ?thesis by simp
qed

subsection \<open>The pipeline under Python 2\<close>

lemma geometry_Python2:
  assumes "linspace t0 (t0 + T) NT = Inr t" and "mean_anomaly T t0 t = Inr M"
    and "eccentric_anomaly newton e M = Inr E"
  shows "\<exists>f. geometry Python2 newton T t0 e a NT = Inr (t, M, f) \<and> length f = nat NT
           \<and> shift_second_half Python2 NT (map (true_anomaly a e) (map (radius a e) E)) = Inr f"
proof -
  obtain f where f: "shift_second_half Python2 NT (map (true_anomaly a e) (map (radius a e) E)) = Inr f"
    by (simp add: shift_second_half_Python2)
  have "length f = length E"
    using shift_second_half_length[OF f] by simp
  also have "\<dots> = length M" using assms(3) by (rule eccentric_anomaly_length)
  also have "\<dots> = length t" using assms(2) by (auto simp: mean_anomaly_def split: if_splits)
  also have "\<dots> = nat NT" using assms(1) by (rule linspace_length)
  finally have "length f = nat NT" .
  with f assms show ?thesis by (simp add: geometry_def)
qed

lemma one_period_Python2:
  assumes "linspace t0 (t0 + T) NT = Inr t" and "mean_anomaly T t0 t = Inr M"
    and "eccentric_anomaly newton e M = Inr E"
  shows "\<exists>RV. one_period Python2 newton K T t0 w e a VZ NT = Inr (t, RV) \<and> length RV = nat NT"
proof -
  from geometry_Python2[OF assms, of a] obtain f where
    "geometry Python2 newton T t0 e a NT = Inr (t, M, f)" "length f = nat NT" by blast
  then show ?thesis by (simp add: one_period_def)
qed

lemma get_RVs_Python2:
  assumes "linspace t0 (t0 + T) NT = Inr t" and "mean_anomaly T t0 t = Inr M"
    and "eccentric_anomaly newton e M = Inr E" and "0 < NT" and "0 \<le> N"
  shows "\<exists>RV ts RVs. one_period Python2 newton K T t0 w e a VZ NT = Inr (t, RV)
           \<and> linspace start finish N = Inr ts \<and> interp ts t RV T = Inr RVs
           \<and> get_RVs Python2 newton K T t0 w e a VZ start finish NT N = Inr (ts, RVs)
           \<and> length ts = nat N \<and> length RVs = nat N"
proof -
  from one_period_Python2[OF assms(1-3)] obtain RV where
    RV: "one_period Python2 newton K T t0 w e a VZ NT = Inr (t, RV)" "length RV = nat NT"
    by blast
  from assms(5) obtain ts where ts: "linspace start finish N = Inr ts"
    using linspace_Inr_iff by blast
  have lt: "length t = nat NT" using assms(1) by (rule linspace_length)
  have T: "T \<noteq> 0" using assms(2) by (auto simp: mean_anomaly_def split: if_splits)
  have "t \<noteq> []" using lt assms(4) by auto
  with T lt RV(2) obtain RVs where RVs: "interp ts t RV T = Inr RVs"
    using interp_Inr_iff[of ts t RV T] by auto
  have "length RVs = nat N"
    using interp_length[OF RVs] linspace_length[OF ts] by simp
  with RV ts RVs linspace_length[OF ts] show ?thesis
    by (simp add: get_RVs_def)
qed

lemma get_RVs_solver_error:
  assumes "linspace t0 (t0 + T) NT = Inr t" and "mean_anomaly T t0 t = Inr M"
    and "eccentric_anomaly newton e M = Inl err"
  shows "get_RVs py newton K T t0 w e a VZ start finish NT N = Inl err"
  using assms by (simp add: get_RVs_def one_period_def geometry_def)

lemma get_RVs_Inr_D:
  assumes "get_RVs py newton K T t0 w e a VZ start finish NT N = Inr (ts, RVs)"
  shows "0 < NT \<and> T \<noteq> 0 \<and> 0 \<le> N \<and>
         (\<exists>t M E. linspace t0 (t0 + T) NT = Inr t \<and> mean_anomaly T t0 t = Inr M
                   \<and> eccentric_anomaly newton e M = Inr E)"
proof -
  from assms obtain t RV where op: "one_period py newton K T t0 w e a VZ NT = Inr (t, RV)"
    and "\<exists>ts. linspace start finish N = Inr ts" and i: "\<exists>ys. interp ts t RV T = Inr ys"
    by (auto simp: get_RVs_def split: sum.splits)
  then have N: "0 \<le> N" using linspace_Inr_iff by blast
  from op obtain M f where g: "geometry py newton T t0 e a NT = Inr (t, M, f)"
    by (auto simp: one_period_def split: sum.splits)
  then have 1: "linspace t0 (t0 + T) NT = Inr t" and 2: "mean_anomaly T t0 t = Inr M"
    and 3: "\<exists>E. eccentric_anomaly newton e M = Inr E"
    by (auto simp: geometry_def split: sum.splits)
  from i have "T \<noteq> 0" "t \<noteq> []" using interp_Inr_iff[of ts t RV T] by auto
  moreover have "length t = nat NT" using 1 by (rule linspace_length)
  ultimately have "0 < NT" "T \<noteq> 0" by (cases "0 < NT"; simp)+
  with N 1 2 3 show ?thesis by blast
qed

lemma true_anomaly_range:
  "true_anomaly a e rk = Some v \<Longrightarrow> 0 \<le> v \<and> v \<le> pi"
  by (auto simp: true_anomaly_def Let_def arccos_lbound arccos_ubound split: if_splits)

subsection \<open>Two small orbits, evaluated\<close>

text \<open>
  The period is 2 and starts at 0, the eccentricity is one half, the semi-major axis 1.
  A grid of three samples has the mean anomalies \<open>0\<close>, \<open>pi\<close> and \<open>2*pi\<close>.
\<close>

lemma linspace_0_2_3: "linspace 0 2 3 = Inr [0, 1, 2]"
  by (simp add: linspace_def upto.simps)

lemma mean_anomaly_0_2_3: "mean_anomaly 2 0 [0, 1, 2] = Inr [0, pi, 2 * pi]"
  by (simp add: mean_anomaly_def)

lemma solve_3: "eccentric_anomaly one_step_solver e [0, pi, 2 * pi] = Inr [0, pi, 2 * pi]"
  by (simp add: one_step_solver_def kepler_def)

lemma geometry_3:
  "geometry Python2 one_step_solver 2 0 (1/2) 1 3
     = Inr ([0, 1, 2], [0, pi, 2 * pi], [Some 0, Some pi, Some (2 * pi)])"
  by (simp add: geometry_def linspace_0_2_3 mean_anomaly_0_2_3 solve_3 del: eccentric_anomaly.simps)
     (simp add: shift_second_half_Python2 true_anomaly_def radius_def power2_eq_square reflect_def)

lemma geometry_3_circular:
  "geometry Python2 one_step_solver 2 0 0 1 3
     = Inr ([0, 1, 2], [0, pi, 2 * pi], [None, None, None])"
  by (simp add: geometry_def linspace_0_2_3 mean_anomaly_0_2_3 solve_3 del: eccentric_anomaly.simps)
     (simp add: shift_second_half_Python2 true_anomaly_def)

lemma one_period_3:
  "one_period Python2 one_step_solver 1 2 0 0 (1/2) 1 0 3
     = Inr ([0, 1, 2], [Some (3/2), Some (- 1/2), Some (3/2)])"
  by (simp add: one_period_def geometry_3 vr_def)

lemma get_RVs_3:
  "get_RVs Python2 one_step_solver 1 2 0 0 (1/2) 1 0 0 2 3 3
     = Inr ([0, 1, 2], [Some (3/2), Some (- 1/2), Some (3/2)])"
  by (simp add: get_RVs_def one_period_3 linspace_0_2_3 interp_def fmod_def lin_def)

lemma get_RVs_3_N0:
  "get_RVs Python2 one_step_solver 1 2 0 0 (1/2) 1 0 0 2 3 0 = Inr ([], [])"
  by (simp add: get_RVs_def one_period_3 linspace_def interp_def fmod_def lin_def)

lemma linspace_0_4_5: "linspace 0 4 5 = Inr [0, 1, 2, 3, 4]"
  by (simp add: linspace_def upto.simps)

lemma mean_anomaly_0_4_5:
  "mean_anomaly 4 0 [0, 1, 2, 3, 4] = Inr [0, pi / 2, pi, 3 * pi / 2, 2 * pi]"
  by (simp add: mean_anomaly_def)

lemma solve_5_fails:
  "eccentric_anomaly one_step_solver (1/2) [0, pi / 2, pi, 3 * pi / 2, 2 * pi]
     = Inl (RuntimeError (pi / 2 + 1 / 2))"
  by (simp add: one_step_solver_def kepler_def)

lemma linspace_0_2_2: "linspace 0 2 2 = Inr [0, 2]"
  by (simp add: linspace_def upto.simps)

section \<open>The periodic interpolation\<close>

subsection \<open>Reduction modulo the period\<close>

lemma fmod_range: "0 < p \<Longrightarrow> 0 \<le> fmod x p \<and> fmod x p < p"
proof -
  assume p: "0 < p"
  have "of_int \<lfloor>x / p\<rfloor> * p \<le> x / p * p"
    using p by (intro mult_right_mono) auto
  moreover have "x / p * p < (of_int \<lfloor>x / p\<rfloor> + 1) * p"
    using p by (intro mult_strict_right_mono) linarith+
  moreover have "x / p * p = x" using p by simp
  ultimately show ?thesis using p by (simp add: fmod_def algebra_simps)
qed

lemma fmod_shift: "fmod x p = x - of_int \<lfloor>x / p\<rfloor> * p"
  by (simp add: fmod_def)

lemma fmod_unique:
  assumes "0 < p" and "0 \<le> r" and "r < p"
  shows "fmod (r + of_int m * p) p = r"
proof -
  have "(r + of_int m * p) / p = r / p + of_int m" using assms(1) by (simp add: field_simps)
  moreover have "\<lfloor>r / p\<rfloor> = 0" using assms by (simp add: floor_eq_iff)
  ultimately have "\<lfloor>(r + of_int m * p) / p\<rfloor> = m" by simp
  then show ?thesis by (simp add: fmod_def)
qed

subsection \<open>Interpolation on sorted knots\<close>

lemma interp_func_bracket:
  assumes "sorted (map fst ps)"
    and "(x0, y0) \<in> set ps" and "(x1, y1) \<in> set ps"
    and "x0 \<le> x" and "x < x1"
    and "\<forall>(k, y) \<in> set ps. \<not> (x0 < k \<and> k < x1)"
    and "\<forall>(k, y) \<in> set ps. k = x0 \<longrightarrow> y = y0"
    and "\<forall>(k, y) \<in> set ps. k = x1 \<longrightarrow> y = y1"
  shows "interp_func ps x = (if x = x0 then y0 else lin x0 y0 x1 y1 x)"
  using assms
proof (induction ps x rule: interp_func.induct)
  case (1 x)
  then show ?case by simp
next
  case (2 a b x)
  then show ?case by auto
next
  case (3 a b c d ps x)
  from "3.prems"(1) have ac: "a \<le> c" and srt: "sorted (map fst ((c, d) # ps))"
    and low: "\<forall>(k, y) \<in> set ((c, d) # ps). c \<le> k"
    by auto
  have ax0: "a \<le> x0" using "3.prems"(1,2) by auto
  show ?case
  proof (cases "c \<le> x")
    case True
    have m1: "(x1, y1) \<in> set ((c, d) # ps)"
      using "3.prems"(3,5) True ac by auto
    have m0: "(x0, y0) \<in> set ((c, d) # ps)"
    proof (cases "(x0, y0) = (a, b)")
      case False
      with "3.prems"(2) show ?thesis by auto
    next
      case eq: True
      have "\<not> (x0 < c \<and> c < x1)" using "3.prems"(6) by auto
      with True "3.prems"(5) have "c \<le> x0" by auto
      with eq ac have "c = x0" by auto
      moreover from this "3.prems"(7) have "d = y0" by auto
      ultimately show ?thesis by simp
    qed
    have "interp_func ((c, d) # ps) x = (if x = x0 then y0 else lin x0 y0 x1 y1 x)"
      using "3.prems"(4-8) True ax0
      by (intro "3.IH"[OF _ _ srt m0 m1]) auto
    with True ax0 "3.prems"(4) show ?thesis by auto
  next
    case False
    then have xc: "x < c" by simp
    have e0: "(x0, y0) = (a, b)"
    proof (rule ccontr)
      assume "(x0, y0) \<noteq> (a, b)"
      with "3.prems"(2) have "(x0, y0) \<in> set ((c, d) # ps)" by auto
      with low have "c \<le> x0" by auto
      with xc "3.prems"(4) show False by simp
    qed
    have "\<not> (x0 < c \<and> c < x1)" using "3.prems"(6) by auto
    with e0 xc "3.prems"(4) have "x1 \<le> c" by auto
    moreover have "(x1, y1) \<in> set ((c, d) # ps)"
      using "3.prems"(3,4,5) e0 by auto
    with low have "c \<le> x1" by auto
    ultimately have "c = x1" by simp
    with "3.prems"(8) have "d = y1" by auto
    with \<open>c = x1\<close> e0 xc "3.prems"(4) show ?thesis by auto
  qed
qed

subsection \<open>The knots of the one-period grid\<close>

text \<open>
  The grid has \<open>n\<close> samples \<open>t0 + j * h\<close> and spans one period \<open>T = (n - 1) * h\<close>.
  Relative to \<open>t0\<close>, every knot of the reduced grid is an integer multiple \<open>q * h\<close> of the
  grid step, and its ordinate is the sample \<open>q mod (n - 1)\<close>.
\<close>

lemma knot_on_grid:
  assumes h: "0 < h" and T: "T = real (n - 1) * h" and n: "2 \<le> n"
    and lt: "length t = n" and lr: "length RV = n"
    and grid: "\<forall>j<n. t ! j = t0 + real j * h"
    and per: "RV ! 0 = RV ! (n - 1)"
    and mem: "(k, y) \<in> set (zip (map (\<lambda>v. fmod v T) t) RV)"
  shows "0 \<le> k \<and> k < T \<and> (\<exists>q::int. k = t0 + of_int q * h \<and> y = RV ! nat (q mod int (n - 1)))"
proof -
  from mem obtain j where j: "j < n" "k = fmod (t ! j) T" "y = RV ! j"
    using lt lr by (auto simp: set_zip)
  have Tpos: "0 < T" using h n T by simp
  define m where "m = \<lfloor>t ! j / T\<rfloor>"
  define q where "q = int j - m * int (n - 1)"
  have "k = t ! j - of_int m * T" using j(2) by (simp add: fmod_shift m_def)
  also have "t ! j = t0 + real j * h" using grid j(1) by simp
  finally have "k = t0 + real j * h - of_int m * (real (n - 1) * h)" using T by simp
  also have "\<dots> = t0 + of_int q * h"
    by (simp add: q_def algebra_simps)
  finally have k: "k = t0 + of_int q * h" .
  have "q mod int (n - 1) = int j mod int (n - 1)"
    unfolding q_def by (metis mod_diff_right_eq mod_mult_self2_is_0 diff_zero)
  also have "\<dots> = (if j = n - 1 then 0 else int j)"
    using j(1) by auto
  finally have "RV ! nat (q mod int (n - 1)) = RV ! j"
    using per by auto
  with k j(3) have "\<exists>q::int. k = t0 + of_int q * h \<and> y = RV ! nat (q mod int (n - 1))"
    by metis
  with fmod_range[OF Tpos, of "t ! j"] j(2) show ?thesis by simp
qed

lemma grid_knot_present:
  assumes h: "0 < h" and T: "T = real (n - 1) * h" and n: "2 \<le> n"
    and lt: "length t = n" and lr: "length RV = n"
    and grid: "\<forall>j<n. t ! j = t0 + real j * h"
    and lo: "0 \<le> t0 + of_int q * h"
    and hi: "t0 + of_int q * h < T"
  shows "(t0 + of_int q * h, RV ! nat (q mod int (n - 1)))
           \<in> set (zip (map (\<lambda>v. fmod v T) t) RV)"
proof -
  define j where "j = nat (q mod int (n - 1))"
  define m where "m = q div int (n - 1)"
  have n1: "0 < int (n - 1)" using n by simp
  have j: "j < n"
    unfolding j_def using pos_mod_bound[OF n1, of q] pos_mod_sign[OF n1, of q] by linarith
  have q: "q = m * int (n - 1) + int j"
    unfolding j_def m_def using pos_mod_sign[OF n1, of q] by simp
  have Tpos: "0 < T" using h n T by simp
  have "t0 + of_int q * h = t0 + of_int (m * int (n - 1) + int j) * h"
    using q by simp
  also have "\<dots> = (t0 + real j * h) + of_int m * (real (n - 1) * h)"
    by (simp add: algebra_simps)
  also have "t0 + real j * h = t ! j" using grid j by simp
  finally have e: "t ! j = (t0 + of_int q * h) + of_int (- m) * T" using T by simp
  have "fmod (t ! j) T = t0 + of_int q * h"
    unfolding e using Tpos lo hi by (rule fmod_unique)
  moreover have "(fmod (t ! j) T, RV ! j) \<in> set (zip (map (\<lambda>v. fmod v T) t) RV)"
  proof -
    have "zip (map (\<lambda>v. fmod v T) t) RV ! j = (fmod (t ! j) T, RV ! j)"
      using j lt lr by simp
    moreover have "j < length (zip (map (\<lambda>v. fmod v T) t) RV)"
      using j lt lr by simp
    ultimately show ?thesis by (metis nth_mem)
  qed
  ultimately show ?thesis by (simp add: j_def)
qed

subsection \<open>Interpolating on the padded knots\<close>

lemma sorted_keys_hd_le:
  "sorted (map fst ps) \<Longrightarrow> p \<in> set ps \<Longrightarrow> fst (hd ps) \<le> fst p"
  by (cases ps) auto

lemma sorted_keys_le_last:
  "sorted (map fst ps) \<Longrightarrow> p \<in> set ps \<Longrightarrow> fst p \<le> fst (last ps)"
  by (induction ps) (auto split: if_splits)

lemma grid_order:
  fixes h :: real
  assumes "0 < h"
  shows "(t0 + of_int q * h < t0 + of_int q' * h) = (q < q')"
    and "(t0 + of_int q * h = t0 + of_int q' * h) = (q = q')"
  using assms by simp_all

lemma padded_interp:
  fixes knots :: "(real \<times> real option) list"
  assumes h: "0 < h" and T: "T = real (n - 1) * h" and n: "2 \<le> n"
    and lt: "length t = n" and lr: "length RV = n"
    and grid: "\<forall>j<n. t ! j = t0 + real j * h"
    and per: "RV ! 0 = RV ! (n - 1)"
    and srt: "sorted (map fst knots)"
    and set: "set knots = set (zip (map (\<lambda>v. fmod v T) t) RV)"
    and x0: "0 \<le> x" and xT: "x < T"
    and q0: "q0 = \<lfloor>(x - t0) / h\<rfloor>"
  shows "interp_func ((fst (last knots) - T, snd (last knots)) # knots
                        @ [(fst (hd knots) + T, snd (hd knots))]) x
         = (if x = t0 + of_int q0 * h then RV ! nat (q0 mod int (n - 1))
            else lin (t0 + of_int q0 * h) (RV ! nat (q0 mod int (n - 1)))
                     (t0 + of_int (q0 + 1) * h) (RV ! nat ((q0 + 1) mod int (n - 1))) x)"
proof -
  let ?val = "\<lambda>q::int. RV ! nat (q mod int (n - 1))"
  let ?key = "\<lambda>q::int. t0 + of_int q * h"
  let ?padded = "(fst (last knots) - T, snd (last knots)) # knots
                   @ [(fst (hd knots) + T, snd (hd knots))]"
  define N1 where "N1 = int (n - 1)"
  have N1: "0 < N1" and TN: "T = of_int N1 * h" using n T by (simp_all add: N1_def)
  have Th: "h \<le> T" using h n T by (simp add: mult_le_cancel_right1)
  have valp: "?val (q + N1) = ?val q" "?val (q - N1) = ?val q" for q
    by (simp_all add: N1_def)
  have keyp: "?key (q + N1) = ?key q + T" "?key (q - N1) = ?key q - T" for q
    by (simp_all add: TN algebra_simps)
  \<comment> \<open>the knots lie on the grid, inside one period\<close>
  have on: "0 \<le> k \<and> k < T \<and> (\<exists>q. k = ?key q \<and> y = ?val q)" if "(k, y) \<in> set knots" for k y
    using knot_on_grid[OF h T n lt lr grid per] that set by blast
  have present: "(?key q, ?val q) \<in> set knots" if "0 \<le> ?key q" "?key q < T" for q
    using grid_knot_present[OF h T n lt lr grid that] set by simp
  have ne: "knots \<noteq> []"
  proof -
    have "length (zip (map (\<lambda>v. fmod v T) t) RV) = n" using lt lr by simp
    with n have "zip (map (\<lambda>v. fmod v T) t) RV \<noteq> []" by auto
    with set show ?thesis by (metis set_empty)
  qed
  then have lastm: "last knots \<in> set knots" and hdm: "hd knots \<in> set knots" by simp_all
  obtain ql where ql: "fst (last knots) = ?key ql" "snd (last knots) = ?val ql"
    "0 \<le> fst (last knots)" "fst (last knots) < T"
    using on[of "fst (last knots)" "snd (last knots)"] lastm by auto
  obtain qh where qh: "fst (hd knots) = ?key qh" "snd (hd knots) = ?val qh"
    "0 \<le> fst (hd knots)" "fst (hd knots) < T"
    using on[of "fst (hd knots)" "snd (hd knots)"] hdm by auto
  \<comment> \<open>so do the two knots added at the ends\<close>
  have onp: "\<exists>q. k = ?key q \<and> y = ?val q" if "(k, y) \<in> set ?padded" for k y
  proof -
    from that consider "(k, y) = (fst (last knots) - T, snd (last knots))"
      | "(k, y) \<in> set knots" | "(k, y) = (fst (hd knots) + T, snd (hd knots))"
      by auto
    then show ?thesis
    proof cases
      case 1
      then have "k = ?key (ql - N1)" "y = ?val (ql - N1)"
        using ql keyp(2)[of ql] valp(2)[of ql] by simp_all
      then show ?thesis by blast
    next
      case 2
      then show ?thesis using on by blast
    next
      case 3
      then have "k = ?key (qh + N1)" "y = ?val (qh + N1)"
        using qh keyp(1)[of qh] valp(1)[of qh] by simp_all
      then show ?thesis by blast
    qed
  qed
  \<comment> \<open>the padded knots are sorted\<close>
  have sp: "sorted (map fst ?padded)"
  proof -
    have "\<forall>k\<in>set (map fst knots). fst (last knots) - T \<le> k \<and> k \<le> fst (hd knots) + T"
    proof
      fix k assume "k \<in> set (map fst knots)"
      then obtain y where "(k, y) \<in> set knots" by auto
      from on[OF this] ql(4) qh(3) show "fst (last knots) - T \<le> k \<and> k \<le> fst (hd knots) + T"
        by simp
    qed
    moreover have "fst (last knots) - T \<le> fst (hd knots) + T"
      using ql(4) qh(3) h Th by simp
    ultimately show ?thesis
      using srt by (simp add: sorted_append)
  qed
  \<comment> \<open>the cell of the grid that holds \<open>x\<close>\<close>
  have cell: "?key q0 \<le> x" "x < ?key (q0 + 1)"
  proof -
    have "of_int q0 \<le> (x - t0) / h" "(x - t0) / h < of_int q0 + 1"
      unfolding q0 by linarith+
    with h have "of_int q0 * h \<le> x - t0" "x - t0 < (of_int q0 + 1) * h"
      by (simp_all add: pos_le_divide_eq pos_divide_less_eq)
    then show "?key q0 \<le> x" "x < ?key (q0 + 1)" by (simp_all add: algebra_simps)
  qed
  have step: "?key (q0 + 1) = ?key q0 + h" by (simp add: algebra_simps)
  \<comment> \<open>its lower end is a padded knot\<close>
  have lower: "(?key q0, ?val q0) \<in> set ?padded"
  proof (cases "0 \<le> ?key q0")
    case True
    with cell(1) xT present[of q0] show ?thesis by simp
  next
    case False
    have a1: "0 \<le> ?key (q0 + N1)" using cell(2) x0 step Th keyp(1)[of q0] by linarith
    have a2: "?key (q0 + N1) < T" using False keyp(1)[of q0] by linarith
    from present[OF a1 a2] have "(?key (q0 + N1), ?val (q0 + N1)) \<in> set knots" .
    from sorted_keys_le_last[OF srt this] have le: "?key (q0 + N1) \<le> ?key ql"
      using ql(1) by simp
    have "\<not> q0 + N1 < ql"
    proof
      assume "q0 + N1 < ql"
      then have "q0 + N1 + 1 \<le> ql" by simp
      then have "?key (q0 + N1 + 1) \<le> ?key ql"
        using h by (simp add: mult_right_mono)
      moreover have "?key (q0 + N1 + 1) = ?key (q0 + 1) + T"
        by (simp add: TN algebra_simps)
      ultimately show False using cell(2) x0 ql(1,4) by linarith
    qed
    moreover from le h have "q0 + N1 \<le> ql" by simp
    ultimately have "ql = q0 + N1" by simp
    then have "fst (last knots) - T = ?key q0" "snd (last knots) = ?val q0"
      using ql(1,2) keyp(1)[of q0] valp(1)[of q0] by simp_all
    then show ?thesis by simp
  qed
  \<comment> \<open>and so is its upper end\<close>
  have upper: "(?key (q0 + 1), ?val (q0 + 1)) \<in> set ?padded"
  proof (cases "?key (q0 + 1) < T")
    case True
    moreover have "0 \<le> ?key (q0 + 1)" using cell(2) x0 by linarith
    ultimately show ?thesis using present[of "q0 + 1"] by simp
  next
    case False
    have b1: "0 \<le> ?key (q0 + 1 - N1)" using False keyp(2)[of "q0 + 1"] by linarith
    have b2: "?key (q0 + 1 - N1) < T"
      using cell(1) xT step Th keyp(2)[of "q0 + 1"] by linarith
    from present[OF b1 b2] have "(?key (q0 + 1 - N1), ?val (q0 + 1 - N1)) \<in> set knots" .
    from sorted_keys_hd_le[OF srt this] have le: "?key qh \<le> ?key (q0 + 1 - N1)"
      using qh(1) by simp
    have "\<not> qh < q0 + 1 - N1"
    proof
      assume "qh < q0 + 1 - N1"
      then have "qh \<le> q0 - N1" by simp
      then have "?key qh \<le> ?key (q0 - N1)"
        using h by (simp add: mult_right_mono)
      with keyp(2)[of q0] cell(1) xT qh(1,3) show False by linarith
    qed
    moreover from le h have "qh \<le> q0 + 1 - N1" by simp
    ultimately have "qh = q0 + 1 - N1" by simp
    then have "fst (hd knots) + T = ?key (q0 + 1)" "snd (hd knots) = ?val (q0 + 1)"
      using qh(1,2) keyp(2)[of "q0 + 1"] valp(2)[of "q0 + 1"] by simp_all
    then show ?thesis by simp
  qed
  \<comment> \<open>no knot lies inside the cell, and a knot at one of its ends has the end's ordinate\<close>
  have gap: "\<forall>(k, y) \<in> set ?padded. \<not> (?key q0 < k \<and> k < ?key (q0 + 1))"
  proof (intro ballI, clarify)
    fix k y assume m: "(k, y) \<in> set ?padded" and "?key q0 < k" "k < ?key (q0 + 1)"
    from onp[OF m] obtain q where "k = ?key q" by blast
    with \<open>?key q0 < k\<close> \<open>k < ?key (q0 + 1)\<close> h have "q0 < q" "q < q0 + 1"
      by simp_all
    then show False by simp
  qed
  have u0: "\<forall>(k, y) \<in> set ?padded. k = ?key q0 \<longrightarrow> y = ?val q0"
  proof (intro ballI, clarify)
    fix k y assume m: "(?key q0, y) \<in> set ?padded"
    from onp[OF m] obtain q where "?key q0 = ?key q" "y = ?val q" by blast
    with h show "y = ?val q0" by simp
  qed
  have u1: "\<forall>(k, y) \<in> set ?padded. k = ?key (q0 + 1) \<longrightarrow> y = ?val (q0 + 1)"
  proof (intro ballI, clarify)
    fix k y assume m: "(?key (q0 + 1), y) \<in> set ?padded"
    from onp[OF m] obtain q where "?key (q0 + 1) = ?key q" "y = ?val q" by blast
    with h have "q = q0 + 1" by simp
    with \<open>y = ?val q\<close> show "y = ?val (q0 + 1)" by simp
  qed
  show ?thesis
    using sp lower upper cell gap u0 u1 by (rule interp_func_bracket)
qed

subsection \<open>The program's interpolation and the specification's\<close>

lemma lin_shift: "lin (a + c) y0 (b + c) y1 (x + c) = lin a y0 b y1 x"
  by (auto simp: lin_def split: option.splits)

lemma padded_interp_spec:
  fixes knots :: "(real \<times> real option) list"
  assumes T: "0 < T" and NT: "2 \<le> NT"
    and lt: "length t = nat NT" and lr: "length RV = nat NT"
    and grid: "\<forall>j<nat NT. t ! j = t0 + real j * (T / of_int (NT - 1))"
    and per: "RV ! 0 = RV ! (nat NT - 1)"
    and srt: "sorted (map fst knots)"
    and set: "set knots = set (zip (map (\<lambda>v. fmod v T) t) RV)"
  shows "interp_func ((fst (last knots) - T, snd (last knots)) # knots
                        @ [(fst (hd knots) + T, snd (hd knots))]) (fmod x T)
         = spec_resample T t0 NT RV x"
proof -
  define n where "n = nat NT"
  define h where "h = T / of_int (NT - 1)"
  define N1 where "N1 = int (n - 1)"
  define u where "u = fmod (x - t0) T"
  define j where "j = nat \<lfloor>u / h\<rfloor>"
  define m where "m = \<lfloor>(x - t0) / T\<rfloor> - \<lfloor>x / T\<rfloor>"
  define q0 where "q0 = \<lfloor>(fmod x T - t0) / h\<rfloor>"
  have n: "2 \<le> n" and NTn: "NT - 1 = N1" using NT by (simp_all add: n_def N1_def)
  have N1: "0 < N1" using n by (simp add: N1_def)
  have h: "0 < h" using T NT by (simp add: h_def)
  have Th: "T = real (n - 1) * h" using NT by (simp add: h_def n_def)
  have TN: "T = of_int N1 * h" using Th by (simp add: N1_def)
  have lt': "length t = n" and lr': "length RV = n" using lt lr by (simp_all add: n_def)
  have grid': "\<forall>j<n. t ! j = t0 + real j * h" using grid by (simp add: n_def h_def)
  have per': "RV ! 0 = RV ! (n - 1)" using per by (simp add: n_def)
  have x': "0 \<le> fmod x T" "fmod x T < T" using fmod_range[OF T, of x] by simp_all
  have ur: "0 \<le> u" "u < T" using fmod_range[OF T, of "x - t0"] by (simp_all add: u_def)
  \<comment> \<open>the reduced time and the phase differ by whole periods\<close>
  have xu: "fmod x T - t0 = u + of_int m * T"
    by (simp add: fmod_shift u_def m_def algebra_simps)
  have "of_int m * T / h = of_int (m * N1)" using h by (simp add: TN)
  moreover have "(fmod x T - t0) / h = u / h + of_int m * T / h"
    by (simp only: xu add_divide_distrib)
  ultimately have e: "(fmod x T - t0) / h = u / h + of_int (m * N1)" by (simp only:)
  have q0: "q0 = \<lfloor>u / h\<rfloor> + m * N1"
    by (simp only: q0_def e floor_add_int[symmetric])
  have fl: "0 \<le> \<lfloor>u / h\<rfloor>" "\<lfloor>u / h\<rfloor> < N1"
  proof -
    show "0 \<le> \<lfloor>u / h\<rfloor>" using ur(1) h by simp
    have "u / h < of_int N1" using ur(2) h TN by (simp add: pos_divide_less_eq)
    then show "\<lfloor>u / h\<rfloor> < N1" by (simp add: floor_less_iff)
  qed
  then have jj: "int j = \<lfloor>u / h\<rfloor>" "j < n - 1"
    unfolding j_def N1_def by linarith+
  have v0: "RV ! nat (q0 mod int (n - 1)) = RV ! j"
  proof -
    have "q0 mod N1 = \<lfloor>u / h\<rfloor>" using fl by (simp add: q0)
    then show ?thesis by (simp add: N1_def j_def)
  qed
  have v1: "RV ! nat ((q0 + 1) mod int (n - 1)) = RV ! Suc j"
  proof (cases "Suc j = n - 1")
    case True
    then have "\<lfloor>u / h\<rfloor> + 1 = N1" using jj by (simp add: N1_def)
    then have "q0 + 1 = N1 + m * N1" by (simp add: q0)
    then have "(q0 + 1) mod N1 = 0" by simp
    with True per' show ?thesis by (simp add: N1_def)
  next
    case False
    with jj have b: "\<lfloor>u / h\<rfloor> + 1 < N1" "0 \<le> \<lfloor>u / h\<rfloor> + 1"
      unfolding N1_def by linarith+
    have "q0 + 1 = (\<lfloor>u / h\<rfloor> + 1) + m * N1" by (simp add: q0)
    then have "(q0 + 1) mod N1 = ((\<lfloor>u / h\<rfloor> + 1) + m * N1) mod N1" by (simp only:)
    also have "\<dots> = (\<lfloor>u / h\<rfloor> + 1) mod N1" by (rule mod_mult_self1)
    also have "\<dots> = \<lfloor>u / h\<rfloor> + 1" using b(2) b(1) by (rule mod_pos_pos_trivial)
    finally have "(q0 + 1) mod N1 = int (Suc j)" using jj(1) by simp
    then show ?thesis by (simp only: N1_def[symmetric] nat_int)
  qed
  have rj: "real j = of_int \<lfloor>u / h\<rfloor>"
    using jj(1) by (metis of_int_of_nat_eq)
  have "of_int q0 * h = (of_int \<lfloor>u / h\<rfloor> + of_int m * of_int N1) * h"
    by (simp only: q0 of_int_add of_int_mult)
  also have "\<dots> = of_int \<lfloor>u / h\<rfloor> * h + of_int m * (of_int N1 * h)"
    by (simp only: distrib_right mult.assoc)
  finally have qh: "of_int q0 * h = real j * h + of_int m * T"
    by (simp only: rj TN[symmetric])
  have k0: "t0 + of_int q0 * h = (t0 + real j * h) + of_int m * T"
    by (simp only: qh add.assoc)
  have "of_int (q0 + 1) * h = of_int q0 * h + h"
    by (simp only: of_int_add of_int_1 distrib_right mult_1)
  also have "\<dots> = real (Suc j) * h + of_int m * T"
    by (simp only: qh of_nat_Suc distrib_right mult_1 add.commute add.left_commute)
  finally have k1: "t0 + of_int (q0 + 1) * h = (t0 + real (Suc j) * h) + of_int m * T"
    by (simp only: add.assoc)
  have kx: "fmod x T = (t0 + u) + of_int m * T" using xu by linarith
  have "interp_func ((fst (last knots) - T, snd (last knots)) # knots
                        @ [(fst (hd knots) + T, snd (hd knots))]) (fmod x T)
         = (if fmod x T = t0 + of_int q0 * h then RV ! nat (q0 mod int (n - 1))
            else lin (t0 + of_int q0 * h) (RV ! nat (q0 mod int (n - 1)))
                     (t0 + of_int (q0 + 1) * h) (RV ! nat ((q0 + 1) mod int (n - 1))) (fmod x T))"
    using h Th n lt' lr' grid' per' srt set x' q0_def by (rule padded_interp)
  also have "\<dots> = (if u = real j * h then RV ! j
         else lin (t0 + real j * h) (RV ! j) (t0 + real (Suc j) * h) (RV ! Suc j) (t0 + u))"
    by (simp only: v0 v1 k0 k1 kx lin_shift add_right_cancel add_left_cancel)
  also have "\<dots> = spec_resample T t0 NT RV x"
    by (simp add: spec_resample_def Let_def u_def j_def h_def)
  finally show ?thesis .
qed

lemma interp_on_period_grid:
  assumes T: "0 < T" and NT: "2 \<le> NT"
    and t: "linspace t0 (t0 + T) NT = Inr t" and lr: "length RV = nat NT"
    and per: "RV ! 0 = RV ! (nat NT - 1)"
  shows "interp ts t RV T = Inr (map (spec_resample T t0 NT RV) ts)"
proof -
  have lt: "length t = nat NT" using t by (rule linspace_length)
  have grid: "\<forall>j<nat NT. t ! j = t0 + real j * (T / of_int (NT - 1))"
    using linspace_nth[OF t] NT by auto
  let ?knots = "sort_key fst (zip (map (\<lambda>v. fmod v T) t) RV)"
  have ne: "?knots \<noteq> []"
  proof -
    have "length ?knots = nat NT" using lt lr by simp
    with NT have "0 < length ?knots" by linarith
    then show ?thesis by (metis length_greater_0_conv)
  qed
  have srt: "sorted (map fst ?knots)" by (rule sorted_sort_key)
  have set: "set ?knots = set (zip (map (\<lambda>v. fmod v T) t) RV)" by simp
  have "interp_func ((fst (last ?knots) - T, snd (last ?knots)) # ?knots
                        @ [(fst (hd ?knots) + T, snd (hd ?knots))]) (fmod x T)
         = spec_resample T t0 NT RV x" for x
    using T NT lt lr grid per srt set by (rule padded_interp_spec)
  with T lt lr ne show ?thesis
    by (simp add: interp_def Let_def)
qed

subsection \<open>The reference curve at the samples of the grid\<close>

lemma spec_resample_at_sample:
  assumes T: "0 < T" and NT: "2 \<le> NT" and i: "i < nat NT"
    and per: "RV ! 0 = RV ! (nat NT - 1)"
  shows "spec_resample T t0 NT RV (t0 + real i * (T / of_int (NT - 1))) = RV ! i"
proof -
  define h where "h = T / of_int (NT - 1)"
  have h: "0 < h" using T NT by (simp add: h_def)
  have Th: "T = of_int (NT - 1) * h" using NT by (simp add: h_def)
  have unf: "spec_resample T t0 NT RV (t0 + real i * h)
      = (if fmod (real i * h) T = real (nat \<lfloor>fmod (real i * h) T / h\<rfloor>) * h
         then RV ! nat \<lfloor>fmod (real i * h) T / h\<rfloor>
         else lin (t0 + real (nat \<lfloor>fmod (real i * h) T / h\<rfloor>) * h)
                  (RV ! nat \<lfloor>fmod (real i * h) T / h\<rfloor>)
                  (t0 + real (Suc (nat \<lfloor>fmod (real i * h) T / h\<rfloor>)) * h)
                  (RV ! Suc (nat \<lfloor>fmod (real i * h) T / h\<rfloor>))
                  (t0 + fmod (real i * h) T))"
    unfolding spec_resample_def h_def[symmetric] Let_def add_diff_cancel_left' ..
  have "spec_resample T t0 NT RV (t0 + real i * h) = RV ! i"
  proof (cases "i = nat NT - 1")
    case True
    then have "real i = of_int (NT - 1)" using NT by simp
    then have "real i * h = 0 + of_int 1 * T" by (simp add: Th)
    then have u: "fmod (real i * h) T = 0"
      using fmod_unique[OF T, of 0 1] T by simp
    show ?thesis
      unfolding unf u using True per by simp
  next
    case False
    with i have "real i < of_int (NT - 1)" using NT by linarith
    then have "real i * h < T" using h by (simp add: Th)
    moreover have "0 \<le> real i * h" using h by simp
    ultimately have u: "fmod (real i * h) T = real i * h"
      using fmod_unique[OF T, of "real i * h" 0] by simp
    have "\<lfloor>real i * h / h\<rfloor> = int i" using h by simp
    then show ?thesis
      unfolding unf u by simp
  qed
  then show ?thesis by (simp only: h_def)
qed

subsection \<open>The period closes\<close>

lemma kepler_root_small:
  fixes d e :: real
  assumes "0 \<le> e" and "e < 1" and "d = e * sin d"
  shows "d = 0"
proof -
  have "\<bar>d\<bar> = e * \<bar>sin d\<bar>" using assms(1,3) by (metis abs_mult abs_of_nonneg)
  also have "\<dots> \<le> e * \<bar>d\<bar>" using assms(1) abs_sin_x_le_abs_x by (intro mult_left_mono) auto
  finally have "(1 - e) * \<bar>d\<bar> \<le> 0" by (simp add: algebra_simps)
  with assms(2) have "\<bar>d\<bar> \<le> 0" by (simp add: mult_le_0_iff)
  then show ?thesis by simp
qed

lemma kepler_root_0:
  assumes "0 \<le> e" and "e < 1" and "kepler E e 0 = 0"
  shows "E = 0"
  using kepler_root_small[OF assms(1,2), of E] assms(3) by (simp add: kepler_def)

lemma kepler_root_2pi:
  assumes "0 \<le> e" and "e < 1" and "kepler E e (2 * pi) = 0"
  shows "E = 2 * pi"
proof -
  have "sin (E - 2 * pi) = sin E" using sin_periodic[of "E - 2 * pi"] by simp
  with assms(3) have "E - 2 * pi = e * sin (E - 2 * pi)" by (simp add: kepler_def)
  from kepler_root_small[OF assms(1,2) this] show ?thesis by simp
qed

lemma true_anomaly_periastron:
  "true_anomaly a e (a * (1 - e)) = (if a = 0 \<or> e = 0 \<or> e = 1 then None else Some 0)"
proof (cases "a = 0 \<or> e = 0 \<or> e = 1")
  case True
  then show ?thesis by (auto simp: true_anomaly_def)
next
  case False
  then have "a * (1 - e\<^sup>2) / (a * (1 - e)) = 1 + e"
    by (simp add: power2_eq_square field_simps)
  with False show ?thesis by (simp add: true_anomaly_def)
qed

lemma vr_periastron: "vr VZ K w (reflect 0) e = vr VZ K w 0 e"
  by (simp add: vr_def reflect_def)

lemma one_period_Inr_D:
  assumes "one_period py newton K T t0 w e a VZ NT = Inr (t, RV)"
  shows "linspace t0 (t0 + T) NT = Inr t \<and> length RV = nat NT"
proof -
  from assms obtain M f where g: "geometry py newton T t0 e a NT = Inr (t, M, f)"
    and RV: "RV = map (map_option (\<lambda>fk. vr VZ K w fk e)) f"
    by (auto simp: one_period_def split: sum.splits)
  from g obtain E where t: "linspace t0 (t0 + T) NT = Inr t"
    and M: "mean_anomaly T t0 t = Inr M"
    and E: "eccentric_anomaly newton e M = Inr E"
    and f: "shift_second_half py NT (map (true_anomaly a e) (map (radius a e) E)) = Inr f"
    by (auto simp: geometry_def split: sum.splits)
  have "length f = length E" using shift_second_half_length[OF f] by simp
  also have "\<dots> = length M" using E by (rule eccentric_anomaly_length)
  also have "\<dots> = length t" using M by (auto simp: mean_anomaly_def split: if_splits)
  also have "\<dots> = nat NT" using t by (rule linspace_length)
  finally show ?thesis using t RV by simp
qed

lemma one_period_closes:
  assumes T: "T \<noteq> 0" and NT: "2 \<le> NT" and e: "0 \<le> e" "e < 1"
    and t: "linspace t0 (t0 + T) NT = Inr t" and M: "mean_anomaly T t0 t = Inr M"
    and E: "eccentric_anomaly newton e M = Inr E"
    and first: "kepler (E ! 0) e (M ! 0) = 0"
    and last: "kepler (E ! (nat NT - 1)) e (M ! (nat NT - 1)) = 0"
    and RV: "one_period Python2 newton K T t0 w e a VZ NT = Inr (t', RV)"
  shows "RV ! 0 = RV ! (nat NT - 1)"
proof -
  define n where "n = nat NT"
  have n: "2 \<le> n" using NT by (simp add: n_def)
  have lt: "length t = n" using linspace_length[OF t] by (simp add: n_def)
  have Mdef: "M = map (\<lambda>tk. 2 * pi / T * (tk - t0)) t"
    using M T by (simp add: mean_anomaly_def)
  have lE: "length E = n" using eccentric_anomaly_length[OF E] lt by (simp add: Mdef)
  have "t ! 0 = t0" using linspace_nth[OF t, of 0] NT by simp
  then have M0: "M ! 0 = 0" using lt n by (simp add: Mdef)
  have "t ! (n - 1) = t0 + real (n - 1) * (T / of_int (NT - 1))"
    using linspace_nth[OF t, of "n - 1"] NT by (simp add: n_def)
  also have "real (n - 1) = of_int (NT - 1)" using NT by (simp add: n_def)
  finally have "t ! (n - 1) = t0 + T" using NT by simp
  then have Mn: "M ! (n - 1) = 2 * pi" using lt n T by (simp add: Mdef)
  have E0: "E ! 0 = 0" using kepler_root_0[OF e] first M0 by simp
  have En: "E ! (n - 1) = 2 * pi" using kepler_root_2pi[OF e] last Mn by (simp add: n_def)
  let ?f0 = "map (true_anomaly a e) (map (radius a e) E)"
  define v where "v = true_anomaly a e (a * (1 - e))"
  have f00: "?f0 ! 0 = v" using lE n E0 by (simp add: radius_def v_def)
  have f0n: "?f0 ! (n - 1) = v" using lE n En by (simp add: radius_def v_def)
  have v: "v = None \<or> v = Some 0"
    unfolding v_def true_anomaly_periastron by simp
  from RV t M E obtain f where f: "shift_second_half Python2 NT ?f0 = Inr f"
    and RVf: "RV = map (map_option (\<lambda>fk. vr VZ K w fk e)) f"
    by (auto simp: one_period_def geometry_def split: sum.splits)
  have lf: "length f = n" using shift_second_half_length[OF f] lE by simp
  have nth: "f ! i = (if nat ((NT - 1) div 2) \<le> i then map_option reflect (?f0 ! i) else ?f0 ! i)"
    if "i < n" for i
    using shift_second_half_nth[of NT i ?f0] NT that lE f by auto
  have mid: "nat ((NT - 1) div 2) \<le> n - 1" using NT unfolding n_def by linarith
  have fn: "f ! (n - 1) = map_option reflect v" using nth[of "n - 1"] n mid f0n by simp
  have f0: "f ! 0 = v \<or> f ! 0 = map_option reflect v" using nth[of 0] n f00 by auto
  have same: "map_option (\<lambda>fk. vr VZ K w fk e) (map_option reflect v)
                = map_option (\<lambda>fk. vr VZ K w fk e) v"
    using v by (auto simp: vr_periastron)
  have "RV ! 0 = map_option (\<lambda>fk. vr VZ K w fk e) (f ! 0)" using lf n by (simp add: RVf)
  also have "\<dots> = map_option (\<lambda>fk. vr VZ K w fk e) v" using f0 same by auto
  also have "\<dots> = map_option (\<lambda>fk. vr VZ K w fk e) (f ! (n - 1))" using fn same by simp
  also have "\<dots> = RV ! (n - 1)" using lf n by (simp add: RVf)
  finally show ?thesis by (simp add: n_def)
qed

lemma linspace_half_2: "linspace (1/2) (5/2) 2 = Inr [1/2, 5/2]"
  by (simp add: linspace_def upto.simps)

lemma spec_resample_3:
  "spec_resample 2 0 3 [Some (3/2), Some (- (1/2)), Some (3/2)] (1/2) = Some (1/2)"
  "spec_resample 2 0 3 [Some (3/2), Some (- (1/2)), Some (3/2)] (5/2) = Some (1/2)"
  by (simp_all add: spec_resample_def Let_def fmod_def lin_def)

section \<open>The secant iteration on the Kepler equation\<close>

text \<open>
  For \<open>0 \<le> e < 1\<close> the residual of the Kepler equation is strictly increasing in
  \<open>E\<close>, with a slope between \<open>1 - e\<close> and \<open>1 + e\<close>. Two distinct points have
  distinct residuals, so the iteration never leaves through \<open>q1 == q0\<close> and always
  has two distinct points; and after a secant step from \<open>p0\<close>, \<open>p1\<close> to \<open>p\<close> the
  residual at \<open>p\<close> is at most \<open>2*e\<close> times the length of the step.
\<close>

lemma tol_pos: "0 < tol"
  by (simp add: tol_def)

lemma sin_lipschitz: "\<bar>sin x - sin y\<bar> \<le> \<bar>x - y\<bar>" for x y :: real
proof -
  have "\<bar>sin x - sin y\<bar> = 2 * \<bar>sin ((x - y) / 2)\<bar> * \<bar>cos ((x + y) / 2)\<bar>"
    by (simp add: sin_diff_sin abs_mult)
  also have "\<dots> \<le> 2 * \<bar>(x - y) / 2\<bar> * 1"
    by (intro mult_mono mult_left_mono abs_sin_x_le_abs_x) auto
  finally show ?thesis by simp
qed

lemma kepler_strict_mono:
  assumes "0 \<le> e" and "e < 1" and "x < y"
  shows "kepler x e M < kepler y e M"
proof -
  have "e * (sin y - sin x) \<le> e * \<bar>sin y - sin x\<bar>"
    using assms(1) by (intro mult_left_mono) auto
  also have "\<dots> \<le> e * \<bar>y - x\<bar>"
    using assms(1) sin_lipschitz by (intro mult_left_mono) auto
  also have "\<dots> < 1 * \<bar>y - x\<bar>"
    using assms(2,3) by (intro mult_strict_right_mono) auto
  finally show ?thesis using assms(3) by (simp add: kepler_def algebra_simps)
qed

lemma kepler_inj:
  assumes "0 \<le> e" and "e < 1" and "kepler x e M = kepler y e M"
  shows "x = y"
  using kepler_strict_mono[OF assms(1,2), of x y M] kepler_strict_mono[OF assms(1,2), of y x M]
    assms(3) by (cases x y rule: linorder_cases) auto




lemma sp_newton_exact_guess:
  assumes e: "0 \<le> e" "e < 1" and root: "kepler x0 e M = 0"
  shows "sp_newton (\<lambda>E. kepler E e M) x0 = Inr x0"
proof -
  define p1 where "p1 = (if 0 \<le> x0 then x0 * (1 + 1 / 10 ^ 4) + 1 / 10 ^ 4
             else x0 * (1 + 1 / 10 ^ 4) - 1 / 10 ^ 4)"
  have far: "1 / 10 ^ 4 \<le> \<bar>x0 - p1\<bar>" by (auto simp: p1_def algebra_simps)
  then have ne: "x0 \<noteq> p1" by auto
  have q1: "kepler p1 e M \<noteq> 0" using kepler_inj[OF e, of p1 M x0] ne root by auto
  have nt: "\<not> \<bar>x0 - p1\<bar> < tol" using far by (simp add: tol_def)
  have step1: "p1 - kepler p1 e M * (p1 - x0) / (kepler p1 e M - 0) = x0"
    using q1 by simp
  have s: "secant (\<lambda>E. kepler E e M) (Suc (Suc n)) x0 p1 x0 = Inr x0" for n
    using q1 nt root tol_pos by (simp add: Let_def)
  have m: "maxiter = Suc (Suc 48)" by (simp add: maxiter_def)
  have "sp_newton (\<lambda>E. kepler E e M) x0 = secant (\<lambda>E. kepler E e M) maxiter x0 p1 x0"
    by (simp add: sp_newton_def Let_def p1_def)
  also have "\<dots> = secant (\<lambda>E. kepler E e M) (Suc (Suc 48)) x0 p1 x0"
    by (simp only: m)
  also have "\<dots> = Inr x0" by (rule s)
  finally show ?thesis .
qed

text \<open>
  The mean anomalies \<open>0\<close>, \<open>pi\<close> and \<open>2*pi\<close> are their own eccentric anomalies
  for every eccentricity, and scipy's iteration returns them: the first secant step
  leads from \<open>p1\<close> back to the initial guess, the second has length zero.
\<close>

lemma solve_3_sp_newton:
  assumes "0 \<le> e" and "e < 1"
  shows "eccentric_anomaly sp_newton e [0, pi, 2 * pi] = Inr [0, pi, 2 * pi]"
proof -
  have "kepler 0 e 0 = 0" "kepler pi e pi = 0" "kepler (2 * pi) e (2 * pi) = 0"
    by (simp_all add: kepler_def)
  then have "sp_newton (\<lambda>E. kepler E e 0) 0 = Inr 0"
    "sp_newton (\<lambda>E. kepler E e pi) pi = Inr pi"
    "sp_newton (\<lambda>E. kepler E e (2 * pi)) (2 * pi) = Inr (2 * pi)"
    using assms by (simp_all only: sp_newton_exact_guess)
  then show ?thesis by simp
qed

subsection \<open>The round trip in exact arithmetic\<close>

text \<open>
  Where the radial velocities of the period have values, and in exact arithmetic, the
  grid resampled onto itself returns them unchanged: for \<open>T > 0\<close> and \<open>NT \<ge> 2\<close>,
  with a solver that succeeds on every sample and finds roots at the first sample and
  at the last (the two share one reduced time, so they have to agree). The statement
  compares the two sequences as they are: where a radial velocity is undefined, as all
  of them are for \<open>e = 0\<close>, it says only that the resampled one is undefined too.
\<close>

lemma round_trip_exact:
  assumes "0 < T" and "2 \<le> NT" and "0 \<le> e" and "e < 1"
    and "linspace t0 (t0 + T) NT = Inr t" and "mean_anomaly T t0 t = Inr M"
    and "eccentric_anomaly newton e M = Inr E"
    and "kepler (E ! 0) e (M ! 0) = 0"
    and "kepler (E ! (nat NT - 1)) e (M ! (nat NT - 1)) = 0"
  shows "\<exists>RV. one_period Python2 newton K T t0 w e a VZ NT = Inr (t, RV)
           \<and> get_RVs Python2 newton K T t0 w e a VZ t0 (t0 + T) NT NT = Inr (t, RV)"
proof -
  from one_period_Python2[OF assms(5-7)] obtain RV where
    RV: "one_period Python2 newton K T t0 w e a VZ NT = Inr (t, RV)"
    and lr: "length RV = nat NT" by blast
  have T: "T \<noteq> 0" using assms(1) by simp
  have per: "RV ! 0 = RV ! (nat NT - 1)"
    using T assms(2-9) RV by (rule one_period_closes)
  have i: "interp t t RV T = Inr (map (spec_resample T t0 NT RV) t)"
    using assms(1,2,5) lr per by (rule interp_on_period_grid)
  have lt: "length t = nat NT" using assms(5) by (rule linspace_length)
  have "map (spec_resample T t0 NT RV) t = RV"
  proof (rule nth_equalityI)
    show "length (map (spec_resample T t0 NT RV) t) = length RV" using lt lr by simp
  next
    fix i assume "i < length (map (spec_resample T t0 NT RV) t)"
    then have i: "i < nat NT" using lt by simp
    have "t ! i = t0 + real i * (T / of_int (NT - 1))"
      using linspace_nth[OF assms(5) i] assms(2) by simp
    with spec_resample_at_sample[OF assms(1,2) i per, of t0] i lt
    show "map (spec_resample T t0 NT RV) t ! i = RV ! i" by simp
  qed
  with i RV assms(5) show ?thesis by (simp add: get_RVs_def)
qed

subsection \<open>The shift on a grid of four samples\<close>

text \<open>
  On a grid with an even number of samples the slice of line 58 starts at
  \<open>(NT-1) div 2 = NT/2 - 1\<close>, one sample before the middle of the grid. Of four
  samples, with the mean anomalies \<open>0\<close>, \<open>2*pi/3\<close>, \<open>4*pi/3\<close>, \<open>2*pi\<close>, the
  second is reflected with the third and the fourth, although it lies in the first half
  of the period.
\<close>

lemma even_grid_4:
  "shift_second_half Python2 4 [f0, f1, f2, f3]
     = Inr [f0, map_option reflect f1, map_option reflect f2, map_option reflect f3]"
  by (simp add: shift_second_half_Python2)

section \<open>The velocity model\<close>

text \<open>
  Claim C6. The velocity model is a function of its five real arguments alone, defined
  for all of them: \<open>RV = VZ + K*(cos(w_rad + f) + e*cos(w_rad))\<close> with
  \<open>w_rad = w * pi/180\<close>.
\<close>

theorem vr_formula:
  "vr VZ K w f e = VZ + K * (cos (w * pi / 180 + f) + e * cos (w * pi / 180))"
  by (simp add: vr_def Let_def)

section \<open>The anomaly solver\<close>



section \<open>The geometry transform\<close>

text \<open>
  Claim C2, as amended. A grid with an odd number \<open>NT \<ge> 1\<close> of samples has the
  midpoint index \<open>(NT-1)/2\<close>. On such a grid the shift returns, under Python 2, a
  sequence of the same length; every sample \<open>i\<close> at or past the midpoint,
  \<open>NT - 1 \<le> 2*i\<close>, holds \<open>f + 2*(pi - f)\<close> for the true anomaly \<open>f\<close> of the
  principal arccos branch, and every sample before the midpoint is unchanged. A shifted
  sample that has a value lies in the closed interval from \<open>pi\<close> to \<open>2*pi\<close>.
\<close>

theorem odd_grid_second_half_reflected:
  assumes "odd NT" and "1 \<le> NT" and "length r = nat NT" and "i < nat NT"
  shows "\<exists>f'. shift_second_half Python2 NT (map (true_anomaly a e) r) = Inr f'
           \<and> length f' = nat NT
           \<and> (if NT - 1 \<le> 2 * int i
              then f' ! i = map_option (\<lambda>v. v + 2 * (pi - v)) (true_anomaly a e (r ! i))
                   \<and> (\<forall>v. f' ! i = Some v \<longrightarrow> pi \<le> v \<and> v \<le> 2 * pi)
              else f' ! i = true_anomaly a e (r ! i))"
proof -
  let ?f = "map (true_anomaly a e) r"
  have i: "i < length ?f" using assms by simp
  from shift_second_half_nth[OF assms(2) i] obtain f' where
    f': "shift_second_half Python2 NT ?f = Inr f'" "length f' = length ?f"
    "f' ! i = (if nat ((NT - 1) div 2) \<le> i then map_option reflect (?f ! i) else ?f ! i)"
    by blast
  from assms(1) obtain k where k: "NT = 2 * k + 1" by (auto elim: oddE)
  have "(nat k \<le> i) = (2 * k \<le> 2 * int i)" using assms(2) k by auto
  then have mid: "(nat ((NT - 1) div 2) \<le> i) = (NT - 1 \<le> 2 * int i)"
    by (simp add: k)
  have r: "reflect = (\<lambda>v. v + 2 * (pi - v))" by (rule ext) (simp add: reflect_def)
  have n: "?f ! i = true_anomaly a e (r ! i)" using assms by simp
  have rng: "pi \<le> v \<and> v \<le> 2 * pi"
    if "map_option reflect (true_anomaly a e (r ! i)) = Some v" for v
  proof -
    from that obtain u where u: "true_anomaly a e (r ! i) = Some u" "v = reflect u" by auto
    from true_anomaly_range[OF u(1)] u(2) show ?thesis by (simp add: reflect_def)
  qed
  have "\<exists>f'. shift_second_half Python2 NT (map (true_anomaly a e) r) = Inr f'
           \<and> length f' = nat NT
           \<and> (if NT - 1 \<le> 2 * int i
              then f' ! i = map_option reflect (true_anomaly a e (r ! i))
                   \<and> (\<forall>v. f' ! i = Some v \<longrightarrow> pi \<le> v \<and> v \<le> 2 * pi)
              else f' ! i = true_anomaly a e (r ! i))"
  proof (cases "NT - 1 \<le> 2 * int i")
    case True
    with f' n rng assms(3) mid show ?thesis by auto
  next
    case False
    with f' n assms(3) mid show ?thesis by auto
  qed
  then show ?thesis unfolding r .
qed

text \<open>
  The grid of three samples for \<open>a = 1\<close>, \<open>e = 1/2\<close>: the radii of the eccentric
  anomalies \<open>0\<close>, \<open>pi\<close>, \<open>2*pi\<close>.
\<close>

theorem odd_grid_second_half_reflected_witness:
  "odd (3::int) \<and> (1::int) \<le> 3 \<and> length [1/2, 3/2, 1/2 :: real] = nat 3 \<and> (2::nat) < nat 3
   \<and> shift_second_half Python2 3 (map (true_anomaly 1 (1/2)) [1/2, 3/2, 1/2])
       = Inr [Some 0, Some pi, Some (2 * pi)]"
proof -
  have "\<exists>f'. shift_second_half Python2 3 (map (true_anomaly 1 (1/2)) [1/2, 3/2, 1/2]) = Inr f'
           \<and> length f' = nat 3
           \<and> (if (3::int) - 1 \<le> 2 * int 2
              then f' ! 2 = map_option (\<lambda>v. v + 2 * (pi - v)) (true_anomaly 1 (1/2) ([1/2, 3/2, 1/2] ! 2))
                   \<and> (\<forall>v. f' ! 2 = Some v \<longrightarrow> pi \<le> v \<and> v \<le> 2 * pi)
              else f' ! 2 = true_anomaly 1 (1/2) ([1/2, 3/2, 1/2] ! 2))"
    by (rule odd_grid_second_half_reflected) simp_all
  moreover have "shift_second_half Python2 3 (map (true_anomaly 1 (1/2)) [1/2, 3/2, 1/2])
       = Inr [Some 0, Some pi, Some (2 * pi)]"
    by (simp add: shift_second_half_Python2 true_anomaly_def power2_eq_square reflect_def)
  ultimately show ?thesis by simp
qed

text \<open>
  The claim as it was stated puts the shifted samples into the open interval between
  \<open>pi\<close> and \<open>2*pi\<close>. On the grid of three samples the middle one is shifted to
  \<open>pi\<close> and the last one to \<open>2*pi\<close>, the two ends of the interval.
\<close>

theorem second_half_open_interval_counterexample:
  "geometry Python2 one_step_solver 2 0 (1/2) 1 3
     = Inr ([0, 1, 2], [0, pi, 2 * pi], [Some 0, Some pi, Some (2 * pi)])
   \<and> \<not> (pi < pi \<and> pi < 2 * pi) \<and> \<not> (pi < 2 * pi \<and> 2 * pi < 2 * pi)"
  by (simp add: geometry_3)

text \<open>
  Claim C3 asks that for \<open>e = 0\<close> the true anomaly of every sample equals its mean
  anomaly. The code has no case for the circular orbit: line 57 divides by \<open>e\<close>, the
  quotient is \<open>0/0\<close>, and every true anomaly and every radial velocity is \<open>nan\<close>.
  The theorem evaluates the code there: on the grid of three samples the mean anomalies
  are \<open>0\<close>, \<open>pi\<close>, \<open>2*pi\<close> and the true anomalies are undefined.
\<close>

theorem circular_orbit_true_anomaly_undefined:
  "true_anomaly a 0 rk = None
   \<and> geometry Python2 one_step_solver 2 0 0 1 3
       = Inr ([0, 1, 2], [0, pi, 2 * pi], [None, None, None])
   \<and> get_RVs Python2 one_step_solver 1 2 0 0 0 1 0 0 2 3 3
       = Inr ([0, 1, 2], [None, None, None])"
proof -
  have "one_period Python2 one_step_solver 1 2 0 0 0 1 0 3 = Inr ([0, 1, 2], [None, None, None])"
    by (simp add: one_period_def geometry_3_circular)
  then have "get_RVs Python2 one_step_solver 1 2 0 0 0 1 0 0 2 3 3
       = Inr ([0, 1, 2], [None, None, None])"
    by (simp add: get_RVs_def linspace_0_2_3 interp_def fmod_def lin_def)
  then show ?thesis
    by (simp add: geometry_3_circular true_anomaly_def)
qed

text \<open>
  Claim C10, as amended. The split index is \<open>(NT-1)/2\<close>. Under Python 2 it is the
  integer \<open>(NT-1) div 2\<close> for every \<open>NT\<close>, even or odd, and the shift returns a
  sequence of the same length; twice the index is \<open>NT-1\<close> for odd \<open>NT\<close> (the exact
  midpoint) and \<open>NT-2\<close> for even \<open>NT\<close>. Under Python 3 it is a float for every
  \<open>NT\<close>, even or odd, and the slice is a TypeError.
\<close>

theorem unwrap_index_by_interpreter:
  "py_div Python2 (NT - 1) 2 = PyInt ((NT - 1) div 2)
   \<and> 2 * ((NT - 1) div 2) = (if odd NT then NT - 1 else NT - 2)
   \<and> (\<exists>f'. shift_second_half Python2 NT f = Inr f' \<and> length f' = length f)
   \<and> py_div Python3 (NT - 1) 2 = PyFloat (of_int (NT - 1) / 2)
   \<and> shift_second_half Python3 NT f = Inl TypeError"
proof -
  have "2 * ((NT - 1) div 2) = (if odd NT then NT - 1 else NT - 2)"
    by presburger
  moreover have "\<exists>f'. shift_second_half Python2 NT f = Inr f' \<and> length f' = length f"
    by (simp add: shift_second_half_Python2)
  ultimately show ?thesis
    by (simp add: py_div_def shift_second_half_Python3)
qed

text \<open>
  The claim as it was stated has every even grid fail and every odd grid pass. Under
  Python 2 the grid of two samples passes; under Python 3 the grid of three fails.
\<close>

theorem unwrap_even_grid_counterexample:
  "get_RVs Python2 one_step_solver 1 2 0 0 (1/2) 1 0 0 2 2 2 = Inr ([0, 2], [Some (3/2), Some (3/2)])
   \<and> get_RVs Python3 one_step_solver 1 2 0 0 (1/2) 1 0 0 2 3 3 = Inl TypeError"
proof -
  have g: "geometry Python2 one_step_solver 2 0 (1/2) 1 2
     = Inr ([0, 2], [0, 2 * pi], [Some (2 * pi), Some (2 * pi)])"
    by (simp add: geometry_def linspace_0_2_2 mean_anomaly_def one_step_solver_def kepler_def)
       (simp add: shift_second_half_Python2 true_anomaly_def radius_def power2_eq_square reflect_def)
  have "get_RVs Python2 one_step_solver 1 2 0 0 (1/2) 1 0 0 2 2 2 = Inr ([0, 2], [Some (3/2), Some (3/2)])"
    by (simp add: get_RVs_def one_period_def g vr_def linspace_0_2_2 interp_def fmod_def lin_def)
  moreover have "get_RVs Python3 one_step_solver 1 2 0 0 (1/2) 1 0 0 2 3 3 = Inl TypeError"
    by (simp add: get_RVs_def one_period_def geometry_def linspace_0_2_3 mean_anomaly_0_2_3 solve_3
        shift_second_half_Python3 del: eccentric_anomaly.simps)
  ultimately show ?thesis by simp
qed

section \<open>Errors\<close>




text \<open>
  Claim C8, as amended. The entry point validates nothing and has no error for an
  invalid parameter. Under Python 2 it returns a pair of sequences exactly when the
  grid has at least one sample, the period is not zero, \<open>N\<close> is not negative and the
  solver succeeds on every sample: whatever \<open>e\<close> is, for a negative period, for
  \<open>NT = 1\<close> and for \<open>N = 0\<close> as well.
\<close>

theorem get_RVs_returns_iff:
  "(\<exists>ts RVs. get_RVs Python2 newton K T t0 w e a VZ start finish NT N = Inr (ts, RVs))
     = (0 < NT \<and> T \<noteq> 0 \<and> 0 \<le> N \<and>
        (\<exists>t M E. linspace t0 (t0 + T) NT = Inr t \<and> mean_anomaly T t0 t = Inr M
                  \<and> eccentric_anomaly newton e M = Inr E))"
proof
  assume "\<exists>ts RVs. get_RVs Python2 newton K T t0 w e a VZ start finish NT N = Inr (ts, RVs)"
  then show "0 < NT \<and> T \<noteq> 0 \<and> 0 \<le> N \<and>
        (\<exists>t M E. linspace t0 (t0 + T) NT = Inr t \<and> mean_anomaly T t0 t = Inr M
                  \<and> eccentric_anomaly newton e M = Inr E)"
    using get_RVs_Inr_D by blast
next
  assume "0 < NT \<and> T \<noteq> 0 \<and> 0 \<le> N \<and>
        (\<exists>t M E. linspace t0 (t0 + T) NT = Inr t \<and> mean_anomaly T t0 t = Inr M
                  \<and> eccentric_anomaly newton e M = Inr E)"
  then obtain t M E where "linspace t0 (t0 + T) NT = Inr t" "mean_anomaly T t0 t = Inr M"
    "eccentric_anomaly newton e M = Inr E" "0 < NT" "0 \<le> N" by blast
  from get_RVs_Python2[OF this]
  show "\<exists>ts RVs. get_RVs Python2 newton K T t0 w e a VZ start finish NT N = Inr (ts, RVs)"
    by blast
qed

text \<open>
  The claim as it was stated has \<open>N < 1\<close> rejected before any computation. With
  \<open>N = 0\<close> the call returns two empty sequences; with \<open>N = -1\<close> and a solver that
  fails, the error is the solver's: the anomalies were solved before \<open>N\<close> was looked at.
\<close>

theorem no_validation_counterexample:
  "get_RVs Python2 one_step_solver 1 2 0 0 (1/2) 1 0 0 2 3 0 = Inr ([], [])
   \<and> get_RVs Python2 one_step_solver 1 4 0 0 (1/2) 1 0 0 4 5 (- 1)
       = Inl (RuntimeError (pi / 2 + 1 / 2))"
proof -
  have "get_RVs Python2 one_step_solver 1 4 0 0 (1/2) 1 0 0 4 5 (- 1) = Inl (RuntimeError (pi / 2 + 1 / 2))"
    by (rule get_RVs_solver_error[where t = "[0, 1, 2, 3, 4]"
          and M = "[0, pi / 2, pi, 3 * pi / 2, 2 * pi]"])
       (simp_all only: add_0 linspace_0_4_5 mean_anomaly_0_4_5 solve_5_fails)
  then show ?thesis by (simp add: get_RVs_3_N0)
qed

section \<open>The resampler\<close>

text \<open>
  Claim C9. For \<open>N \<ge> 1\<close>, on a grid of at least one sample on which the solver
  succeeds, the entry point returns \<open>N\<close> times and \<open>N\<close> radial velocities. The times
  are evenly spaced: the \<open>i\<close>-th is \<open>start + i * (end - start) / (N - 1)\<close>, the first
  is \<open>start\<close>, the last is \<open>end\<close> when there are at least two, and for \<open>N = 1\<close> the
  only time is \<open>start\<close>. (That the period is not zero is part of the hypothesis that
  the mean anomalies exist.)
\<close>

theorem output_grid:
  assumes "1 \<le> N" and "1 \<le> NT"
    and "linspace t0 (t0 + T) NT = Inr t" and "mean_anomaly T t0 t = Inr M"
    and "\<forall>Mk\<in>set M. \<exists>Ek. newton (\<lambda>E. kepler E e Mk) Mk = Inr Ek"
  shows "\<exists>ts RVs. get_RVs Python2 newton K T t0 w e a VZ start finish NT N = Inr (ts, RVs)
           \<and> length ts = nat N \<and> length RVs = nat N
           \<and> (\<forall>i<nat N. ts ! i = start + real i * ((finish - start) / real_of_int (N - 1)))
           \<and> ts ! 0 = start
           \<and> (N = 1 \<longrightarrow> ts = [start])
           \<and> (1 < N \<longrightarrow> ts ! (nat N - 1) = finish)"
proof -
  from assms(5) obtain E where E: "eccentric_anomaly newton e M = Inr E"
    using eccentric_anomaly_converges[of newton e M] by blast
  from get_RVs_Python2[OF assms(3,4) E, of N K w a VZ start finish] assms(1,2)
  obtain ts RVs where ts: "linspace start finish N = Inr ts"
    and g: "get_RVs Python2 newton K T t0 w e a VZ start finish NT N = Inr (ts, RVs)"
    and l: "length ts = nat N" "length RVs = nat N"
    by auto
  have nth: "ts ! i = start + real i * ((finish - start) / real_of_int (N - 1))" if "i < nat N" for i
  proof (cases "N = 1")
    case True
    with that have "i = 0" by simp
    with linspace_nth[OF ts that] True show ?thesis by simp
  next
    case False
    with linspace_nth[OF ts that] show ?thesis by simp
  qed
  have z: "ts ! 0 = start" using nth[of 0] assms(1) by simp
  have one: "ts = [start]" if "N = 1"
    using that ts by (simp add: linspace_one)
  have last: "ts ! (nat N - 1) = finish" if "1 < N"
  proof -
    have "nat N - 1 < nat N" using that by simp
    from nth[OF this] that have "ts ! (nat N - 1) = start + real (nat N - 1) * ((finish - start) / real_of_int (N - 1))"
      by simp
    also have "real (nat N - 1) = real_of_int (N - 1)" using that by (simp add: of_nat_diff)
    finally show ?thesis using that by simp
  qed
  from g l nth z one last show ?thesis by blast
qed

theorem output_grid_witness:
  "(1::int) \<le> 3
   \<and> linspace 0 (0 + 2) 3 = Inr [0, 1, 2]
   \<and> mean_anomaly 2 0 [0, 1, 2] = Inr [0, pi, 2 * pi]
   \<and> one_step_solver (\<lambda>E. kepler E (1/2) 0) 0 = Inr 0
   \<and> one_step_solver (\<lambda>E. kepler E (1/2) pi) pi = Inr pi
   \<and> one_step_solver (\<lambda>E. kepler E (1/2) (2 * pi)) (2 * pi) = Inr (2 * pi)
   \<and> (\<exists>ts RVs. get_RVs Python2 one_step_solver 1 2 0 0 (1/2) 1 0 5 7 3 3 = Inr (ts, RVs)
         \<and> length ts = 3 \<and> length RVs = 3 \<and> ts ! 0 = 5 \<and> ts ! 1 = 6 \<and> ts ! 2 = 7)"
proof -
  have 1: "(1::int) \<le> 3" by simp
  have 3: "linspace 0 (0 + 2) 3 = Inr [0, 1, 2]" by (simp add: linspace_0_2_3)
  have 4: "mean_anomaly 2 0 [0, 1, 2] = Inr [0, pi, 2 * pi]" by (rule mean_anomaly_0_2_3)
  have 5: "\<forall>Mk\<in>set [0, pi, 2 * pi]. \<exists>Ek. one_step_solver (\<lambda>E. kepler E (1/2) Mk) Mk = Inr Ek"
    by (simp add: one_step_solver_def kepler_def)
  have s: "one_step_solver (\<lambda>E. kepler E (1/2) 0) 0 = Inr 0"
    "one_step_solver (\<lambda>E. kepler E (1/2) pi) pi = Inr pi"
    "one_step_solver (\<lambda>E. kepler E (1/2) (2 * pi)) (2 * pi) = Inr (2 * pi)"
    by (simp_all add: one_step_solver_def kepler_def)
  have "\<exists>ts RVs. get_RVs Python2 one_step_solver 1 2 0 0 (1/2) 1 0 5 7 3 3 = Inr (ts, RVs)
           \<and> length ts = nat 3 \<and> length RVs = nat 3
           \<and> (\<forall>i<nat 3. ts ! i = 5 + real i * ((7 - 5) / real_of_int (3 - 1)))
           \<and> ts ! 0 = 5
           \<and> ((3::int) = 1 \<longrightarrow> ts = [5])
           \<and> (1 < (3::int) \<longrightarrow> ts ! (nat 3 - 1) = 7)"
    using 1 1 3 4 5 by (rule output_grid)
  then obtain ts RVs where
    g: "get_RVs Python2 one_step_solver 1 2 0 0 (1/2) 1 0 5 7 3 3 = Inr (ts, RVs)"
    and l: "length ts = nat 3" "length RVs = nat 3"
    and n: "\<forall>i<nat 3. ts ! i = 5 + real i * ((7 - 5) / real_of_int (3 - 1))"
    by blast
  from n have "ts ! 0 = 5" "ts ! 1 = 6" "ts ! 2 = 7" by simp_all
  with g l 3 4 s show ?thesis by simp
qed

text \<open>
  Claim C4. The reference grid is the uniform grid of \<open>NT \<ge> 2\<close> samples from \<open>t0\<close> to
  \<open>t0 + T\<close>, \<open>T > 0\<close>, and the reference curve is periodic: its first and its last
  radial velocity, one period apart, are equal. Then for every \<open>N \<ge> 0\<close> the entry point
  returns \<open>N\<close> times and \<open>N\<close> radial velocities, and the radial velocity at every
  target time is the linear interpolation between the two nearest reference samples
  after the target time is reduced modulo \<open>T\<close> relative to \<open>t0\<close>, as
  \<open>spec_resample\<close> words it.
\<close>

theorem resampled_is_periodic_interpolation:
  assumes "0 < T" and "2 \<le> NT" and "0 \<le> N"
    and "one_period Python2 newton K T t0 w e a VZ NT = Inr (t, RV)"
    and "RV ! 0 = RV ! (nat NT - 1)"
  shows "\<exists>ts RVs. get_RVs Python2 newton K T t0 w e a VZ start finish NT N = Inr (ts, RVs)
           \<and> length ts = nat N \<and> length RVs = nat N
           \<and> (\<forall>i<nat N. RVs ! i = spec_resample T t0 NT RV (ts ! i))"
proof -
  from one_period_Inr_D[OF assms(4)] have t: "linspace t0 (t0 + T) NT = Inr t"
    and lr: "length RV = nat NT" by simp_all
  from assms(3) obtain ts where ts: "linspace start finish N = Inr ts"
    using linspace_Inr_iff by blast
  have lts: "length ts = nat N" using ts by (rule linspace_length)
  have i: "interp ts t RV T = Inr (map (spec_resample T t0 NT RV) ts)"
    using assms(1,2) t lr assms(5) by (rule interp_on_period_grid)
  have "get_RVs Python2 newton K T t0 w e a VZ start finish NT N
          = Inr (ts, map (spec_resample T t0 NT RV) ts)"
    using assms(4) ts i by (simp add: get_RVs_def)
  with lts show ?thesis by simp
qed

theorem resampled_is_periodic_interpolation_witness:
  "(0::real) < 2 \<and> (2::int) \<le> 3 \<and> (0::int) \<le> 2
   \<and> one_period Python2 one_step_solver 1 2 0 0 (1/2) 1 0 3
       = Inr ([0, 1, 2], [Some (3/2), Some (- 1/2), Some (3/2)])
   \<and> [Some (3/2), Some (- 1/2), Some (3/2 :: real)] ! 0
       = [Some (3/2), Some (- 1/2), Some (3/2)] ! (nat 3 - 1)
   \<and> get_RVs Python2 one_step_solver 1 2 0 0 (1/2) 1 0 (1/2) (5/2) 3 2
       = Inr ([1/2, 5/2], [Some (1/2), Some (1/2)])"
proof -
  let ?RV = "[Some (3/2), Some (- 1/2), Some (3/2 :: real)]"
  have 1: "(0::real) < 2" and 2: "(2::int) \<le> 3" and 3: "(0::int) \<le> 2" by simp_all
  have 4: "one_period Python2 one_step_solver 1 2 0 0 (1/2) 1 0 3 = Inr ([0, 1, 2], ?RV)"
    by (rule one_period_3)
  have 5: "?RV ! 0 = ?RV ! (nat 3 - 1)" by simp
  from resampled_is_periodic_interpolation[OF 1 2 3 4 5, of "1/2" "5/2"]
  obtain ts RVs where g: "get_RVs Python2 one_step_solver 1 2 0 0 (1/2) 1 0 (1/2) (5/2) 3 2 = Inr (ts, RVs)"
    and l: "length ts = nat 2" "length RVs = nat 2"
    and r: "\<forall>i<nat 2. RVs ! i = spec_resample 2 0 3 ?RV (ts ! i)"
    by blast
  from g have ts: "ts = [1/2, 5/2]"
    by (auto simp: get_RVs_def 4 linspace_half_2 split: sum.splits)
  from r have "RVs ! 0 = spec_resample 2 0 3 ?RV (ts ! 0)" "RVs ! 1 = spec_resample 2 0 3 ?RV (ts ! 1)"
    by simp_all
  then have "RVs ! 0 = Some (1/2)" "RVs ! 1 = Some (1/2)"
    by (simp_all add: ts spec_resample_3)
  moreover from l(2) obtain y0 y1 where "RVs = [y0, y1]"
    by (cases RVs; cases "tl RVs") auto
  ultimately have "RVs = [Some (1/2), Some (1/2)]" by simp
  with g ts 4 show ?thesis by simp
qed

text \<open>
  Claim C5 asks that resampling the one-period grid onto itself (\<open>start = t0\<close>,
  \<open>end = t0 + T\<close>, \<open>N = NT\<close>) reproduces the radial velocities of the period, value
  for value and within a tolerance, for every valid parameter set. The circular orbit
  is a valid parameter set, and there the code has no value to reproduce: line 57
  divides by \<open>e\<close> (the defect of claim C3), so every radial velocity of the period is
  \<open>nan\<close> and every resampled one is \<open>nan\<close>, which is within no tolerance of
  anything. The theorem evaluates the code there, with scipy's iteration, on the grid of
  three samples and for every \<open>K\<close>, \<open>w\<close>, \<open>a\<close> and \<open>VZ\<close>.
\<close>

theorem round_trip_of_circular_orbit:
  "one_period Python2 sp_newton K 2 0 w 0 a VZ 3 = Inr ([0, 1, 2], [None, None, None])
   \<and> get_RVs Python2 sp_newton K 2 0 w 0 a VZ 0 (0 + 2) 3 3
       = Inr ([0, 1, 2], [None, None, None])"
proof -
  have E: "eccentric_anomaly sp_newton 0 [0, pi, 2 * pi] = Inr [0, pi, 2 * pi]"
    by (rule solve_3_sp_newton) simp_all
  have g: "geometry Python2 sp_newton 2 0 0 a 3 = Inr ([0, 1, 2], [0, pi, 2 * pi], [None, None, None])"
    by (simp add: geometry_def linspace_0_2_3 mean_anomaly_0_2_3 E del: eccentric_anomaly.simps)
       (simp add: shift_second_half_Python2 true_anomaly_def)
  have o: "one_period Python2 sp_newton K 2 0 w 0 a VZ 3 = Inr ([0, 1, 2], [None, None, None])"
    by (simp add: one_period_def g)
  then have "get_RVs Python2 sp_newton K 2 0 w 0 a VZ 0 (0 + 2) 3 3
       = Inr ([0, 1, 2], [None, None, None])"
    by (simp add: get_RVs_def linspace_0_2_3 interp_def fmod_def lin_def)
  with o show ?thesis by simp
qed

end
